theory Spec2Isabelle
  imports Complex_Main
begin

section \<open>The early-stopping training loop of the LeNet notebook\<close>

text \<open>
  The notebook \<^verbatim>\<open>notebooks/lenet.ipynb\<close> declares a network, compiles the two Theano
  functions \<^verbatim>\<open>train_fn\<close> and \<^verbatim>\<open>valid_fn\<close>, and trains with the Python function
  \<^verbatim>\<open>evaluate_model(train_fn, valid_fn, datasets, n_epochs, batch_size)\<close>. This theory
  embeds \<^verbatim>\<open>evaluate_model\<close> and the cells that compile the two functions and call it.

  \<^item> The network parameters (Theano shared variables, updated by \<^verbatim>\<open>train_fn\<close>) are a value
    of an arbitrary type \<open>'m\<close>, threaded through the loop. \<^verbatim>\<open>train_fn\<close> takes a minibatch and
    the parameters and returns its cost and the new parameters; \<^verbatim>\<open>valid_fn\<close> takes a
    minibatch and the parameters and returns an error rate, a finite number, without
    changing anything.
  \<^item> An array is the list of its rows; \<^verbatim>\<open>a.shape[0]\<close> is its length.
  \<^item> Python integers are \<open>int\<close>. The two counts the caller passes, \<^verbatim>\<open>n_epochs\<close> and
    \<^verbatim>\<open>batch_size\<close>, are natural numbers.
  \<^item> Floating-point numbers are real numbers extended with \<open>+inf\<close> and \<open>nan\<close>, the two
    special values the loop can meet. Comparison is exact; the operations that round are
    parameters of the model.
  \<^item> The \<^verbatim>\<open>print\<close> calls and the two readings of the clock are left out.
\<close>

subsection \<open>Numbers\<close>

datatype error = ZeroDivisionError

datatype fl = Fin real | PInf | NaN

text \<open>The comparison \<^verbatim>\<open>a < b\<close> of two floats: false whenever one side is \<open>nan\<close>.\<close>

fun fl_less :: "fl \<Rightarrow> fl \<Rightarrow> bool" where
  "fl_less (Fin a) (Fin b) = (a < b)"
| "fl_less (Fin a) PInf = True"
| "fl_less _ _ = False"

text \<open>
  The two operations of the loop that round: the mean \<^verbatim>\<open>np.mean\<close> computes of a non-empty
  list of floats, and the product of two finite floats. What they return is not fixed
  here: they are parameters of the model, and a property proved for every such pair holds
  for the arithmetic of the machine.
\<close>

record arith =
  fp_mean :: "real list \<Rightarrow> fl"
  fp_times :: "real \<Rightarrow> real \<Rightarrow> fl"

text \<open>
  The product \<^verbatim>\<open>a * c\<close> of a float and a positive finite constant: \<open>+inf\<close> and \<open>nan\<close>
  stay as they are, a finite number is multiplied by the arithmetic.
\<close>

fun fl_times :: "arith \<Rightarrow> fl \<Rightarrow> real \<Rightarrow> fl" where
  "fl_times fp (Fin a) c = fp_times fp a c"
| "fl_times fp PInf c = PInf"
| "fl_times fp NaN c = NaN"

text \<open>\<^verbatim>\<open>np.mean\<close> of a list of finite numbers: \<open>nan\<close> on the empty list.\<close>

definition np_mean :: "arith \<Rightarrow> real list \<Rightarrow> fl" where
  "np_mean fp xs = (if xs = [] then NaN else fp_mean fp xs)"

text \<open>The arithmetic that does not round, for the small runs below.\<close>

definition exact :: arith where
  "exact = \<lparr>fp_mean = (\<lambda>xs. Fin (sum_list xs / real (length xs))),
            fp_times = (\<lambda>a c. Fin (a * c))\<rparr>"

subsection \<open>Slices and ranges\<close>

text \<open>
  A bound of a slice \<^verbatim>\<open>a[lo:hi]\<close> on an array of length \<open>n\<close>: a negative bound counts from
  the end, and every bound is clipped to the array.
\<close>

definition slice_bound :: "int \<Rightarrow> int \<Rightarrow> nat" where
  "slice_bound n i = nat (if i < 0 then max 0 (i + n) else min i n)"

definition py_slice :: "'a list \<Rightarrow> int \<Rightarrow> int \<Rightarrow> 'a list" where
  "py_slice xs lo hi =
     (let n = int (length xs); l = slice_bound n lo; h = slice_bound n hi
      in take (h - l) (drop l xs))"

text \<open>\<^verbatim>\<open>range(n)\<close>: empty when \<open>n \<le> 0\<close>.\<close>

definition py_range :: "int \<Rightarrow> int list" where
  "py_range n = map int [0 ..< nat n]"

subsection \<open>State\<close>

type_synonym ('x, 'y) split = "'x list \<times> 'y list"

type_synonym ('x, 'y) datasets = "('x, 'y) split \<times> ('x, 'y) split \<times> ('x, 'y) split"

type_synonym ('x, 'y, 'm) train_fn = "'x list \<Rightarrow> 'y list \<Rightarrow> 'm \<Rightarrow> real \<times> 'm"

type_synonym ('x, 'y, 'm) valid_fn = "'x list \<Rightarrow> 'y list \<Rightarrow> 'm \<Rightarrow> real"

text \<open>
  One entry of the history of a run, written at the end of each execution of the body of
  the inner loop: where the iteration was, the parameters after its training step, the
  validation loss if one was computed, and the values of the early-stopping variables after
  the iteration. The history is a ghost variable, oldest entry first: the loop writes it and
  never reads it.
\<close>

record 'm snapshot =
  at_epoch :: int
  at_minibatch :: int
  at_iter :: int
  at_params :: 'm
  at_validation :: "fl option"
  at_patience :: int
  at_best_validation_loss :: fl
  at_best_iter :: int
  at_test_score :: fl

text \<open>
  The store the function works on (the \<^verbatim>\<open>datasets\<close> object it is given and the network
  parameters) and its local variables.
\<close>

record ('x, 'y, 'm) state =
  datasets :: "('x, 'y) datasets"
  params :: 'm
  n_train_batches :: int
  n_valid_batches :: int
  n_test_batches :: int
  patience :: int
  validation_frequency :: int
  best_validation_loss :: fl
  best_iter :: int
  test_score :: fl
  epoch :: int
  done_looping :: bool
  history :: "'m snapshot list"

definition patience_increase :: int where
  "patience_increase = 2"

definition improvement_threshold :: real where
  "improvement_threshold = 0.995"

subsection \<open>The body of the inner loop\<close>

text \<open>
  \<^verbatim>\<open>[valid_fn(set_x[i * batch_size:(i + 1) * batch_size],
             set_y[i * batch_size:(i + 1) * batch_size]) for i in range(n_batches)]\<close>
\<close>

definition batch_losses ::
  "('x, 'y, 'm) valid_fn \<Rightarrow> ('x, 'y) split \<Rightarrow> int \<Rightarrow> int \<Rightarrow> 'm \<Rightarrow> real list" where
  "batch_losses valid_fn set_xy n_batches batch_size p =
     map (\<lambda>i. valid_fn (py_slice (fst set_xy) (i * batch_size) ((i + 1) * batch_size))
                        (py_slice (snd set_xy) (i * batch_size) ((i + 1) * batch_size)) p)
         (py_range n_batches)"

text \<open>The statements under \<^verbatim>\<open>if this_validation_loss < best_validation_loss\<close>.\<close>

definition new_best ::
  "arith \<Rightarrow> ('x, 'y, 'm) valid_fn \<Rightarrow> int \<Rightarrow> int \<Rightarrow> fl \<Rightarrow> ('x, 'y, 'm) state \<Rightarrow> ('x, 'y, 'm) state" where
  "new_best fp valid_fn batch_size iter this_validation_loss s =
     (let s1 = (if fl_less this_validation_loss
                     (fl_times fp (best_validation_loss s) improvement_threshold)
                then s\<lparr>patience := max (patience s) (iter * patience_increase)\<rparr>
                else s);
          test_losses = batch_losses valid_fn (snd (snd (datasets s1))) (n_test_batches s1)
                          batch_size (params s1)
      in s1\<lparr>best_validation_loss := this_validation_loss,
             best_iter := iter,
             test_score := np_mean fp test_losses\<rparr>)"

definition observe ::
  "int \<Rightarrow> int \<Rightarrow> fl option \<Rightarrow> ('x, 'y, 'm) state \<Rightarrow> ('x, 'y, 'm) state" where
  "observe iter minibatch_index v s =
     s\<lparr>history := history s @
         [\<lparr>at_epoch = epoch s, at_minibatch = minibatch_index, at_iter = iter,
           at_params = params s, at_validation = v, at_patience = patience s,
           at_best_validation_loss = best_validation_loss s, at_best_iter = best_iter s,
           at_test_score = test_score s\<rparr>]\<rparr>"

text \<open>
  The body of \<^verbatim>\<open>for minibatch_index in range(n_train_batches)\<close> up to the test
  \<^verbatim>\<open>patience <= iter\<close>: the training step, then the validation check when
  \<^verbatim>\<open>(iter + 1) % validation_frequency == 0\<close>, where \<^verbatim>\<open>%\<close> raises on a zero divisor.
\<close>

definition body ::
  "arith \<Rightarrow> ('x, 'y, 'm) train_fn \<Rightarrow> ('x, 'y, 'm) valid_fn \<Rightarrow> int \<Rightarrow> int \<Rightarrow> ('x, 'y, 'm) state
     \<Rightarrow> error + ('x, 'y, 'm) state" where
  "body fp train_fn valid_fn batch_size minibatch_index s =
     (let iter = (epoch s - 1) * n_train_batches s + minibatch_index;
          train_set = fst (datasets s);
          (cost_ij, p) =
            train_fn (py_slice (fst train_set) (minibatch_index * batch_size)
                               ((minibatch_index + 1) * batch_size))
                     (py_slice (snd train_set) (minibatch_index * batch_size)
                               ((minibatch_index + 1) * batch_size))
                     (params s);
          s1 = s\<lparr>params := p\<rparr>
      in if validation_frequency s1 = 0 then Inl ZeroDivisionError
         else if (iter + 1) mod validation_frequency s1 = 0 then
           (let validation_losses =
                  batch_losses valid_fn (fst (snd (datasets s1))) (n_valid_batches s1)
                    batch_size (params s1);
                this_validation_loss = np_mean fp validation_losses;
                s2 = (if fl_less this_validation_loss (best_validation_loss s1)
                      then new_best fp valid_fn batch_size iter this_validation_loss s1
                      else s1)
            in Inr (observe iter minibatch_index (Some this_validation_loss) s2))
         else Inr (observe iter minibatch_index None s1))"

subsection \<open>The two loops\<close>

text \<open>
  The inner loop over the minibatch indices still to visit. After each body it tests
  \<^verbatim>\<open>patience <= iter\<close>, and then sets \<^verbatim>\<open>done_looping\<close> and breaks.
\<close>

fun for_loop ::
  "arith \<Rightarrow> ('x, 'y, 'm) train_fn \<Rightarrow> ('x, 'y, 'm) valid_fn \<Rightarrow> int \<Rightarrow> int list \<Rightarrow> ('x, 'y, 'm) state
     \<Rightarrow> error + ('x, 'y, 'm) state" where
  "for_loop fp train_fn valid_fn batch_size [] s = Inr s"
| "for_loop fp train_fn valid_fn batch_size (minibatch_index # rest) s =
     (case body fp train_fn valid_fn batch_size minibatch_index s of
        Inl e \<Rightarrow> Inl e
      | Inr s' \<Rightarrow>
          if patience s' \<le> (epoch s' - 1) * n_train_batches s' + minibatch_index
          then Inr (s'\<lparr>done_looping := True\<rparr>)
          else for_loop fp train_fn valid_fn batch_size rest s')"

text \<open>One pass of \<^verbatim>\<open>while (epoch < n_epochs) and (not done_looping)\<close>.\<close>

definition epoch_pass ::
  "arith \<Rightarrow> ('x, 'y, 'm) train_fn \<Rightarrow> ('x, 'y, 'm) valid_fn \<Rightarrow> int \<Rightarrow> ('x, 'y, 'm) state
     \<Rightarrow> error + ('x, 'y, 'm) state" where
  "epoch_pass fp train_fn valid_fn batch_size s =
     for_loop fp train_fn valid_fn batch_size (py_range (n_train_batches s))
       (s\<lparr>epoch := epoch s + 1\<rparr>)"

function while_loop ::
  "arith \<Rightarrow> ('x, 'y, 'm) train_fn \<Rightarrow> ('x, 'y, 'm) valid_fn \<Rightarrow> int \<Rightarrow> int \<Rightarrow> ('x, 'y, 'm) state
     \<Rightarrow> error + ('x, 'y, 'm) state" where
  "while_loop fp train_fn valid_fn n_epochs batch_size s =
     (if epoch s < n_epochs \<and> \<not> done_looping s then
        (case epoch_pass fp train_fn valid_fn batch_size s of
           Inl e \<Rightarrow> Inl e
         | Inr s' \<Rightarrow> while_loop fp train_fn valid_fn n_epochs batch_size s')
      else Inr s)"
  by pat_completeness auto
termination
proof (relation "measure (\<lambda>(fp, train_fn, valid_fn, n_epochs, batch_size, s). nat (n_epochs - epoch s))")
  show "wf (measure (\<lambda>(fp, train_fn, valid_fn, n_epochs, batch_size, s). nat (n_epochs - epoch s)))"
    by simp
next
  fix fp :: arith and train_fn :: "('x, 'y, 'm) train_fn" and valid_fn :: "('x, 'y, 'm) valid_fn"
    and n_epochs batch_size :: int and s s' :: "('x, 'y, 'm) state"
  assume run: "epoch s < n_epochs \<and> \<not> done_looping s"
    and pass: "epoch_pass fp train_fn valid_fn batch_size s = Inr s'"
  have body_epoch: "epoch t' = epoch t"
    if "body fp train_fn valid_fn batch_size i t = Inr t'" for i t t'
    using that
    by (auto simp: body_def observe_def new_best_def Let_def split: prod.splits if_splits)
  have loop_epoch: "epoch t' = epoch t"
    if "for_loop fp train_fn valid_fn batch_size is t = Inr t'" for "is" t t'
    using that
  proof (induction "is" arbitrary: t)
    case Nil
    then show ?case by simp
  next
    case (Cons i "is")
    then show ?case
      by (auto split: sum.splits if_splits dest: body_epoch)
  qed
  from pass have "epoch s' = epoch s + 1"
    by (auto simp: epoch_pass_def dest: loop_epoch)
  with run show "((fp, train_fn, valid_fn, n_epochs, batch_size, s'),
                  (fp, train_fn, valid_fn, n_epochs, batch_size, s))
        \<in> measure (\<lambda>(fp, train_fn, valid_fn, n_epochs, batch_size, s). nat (n_epochs - epoch s))"
    by simp
qed

declare while_loop.simps [simp del]

subsection \<open>evaluate_model\<close>

text \<open>
  The statements before the loop (the three floor divisions by \<^verbatim>\<open>batch_size\<close>, which
  raise when it is zero, and the initial values) and then the loop. The result is the state
  at the \<^verbatim>\<open>print\<close> calls that end the function.
\<close>

definition initial_state ::
  "('x, 'y) datasets \<Rightarrow> int \<Rightarrow> 'm \<Rightarrow> ('x, 'y, 'm) state" where
  "initial_state ds batch_size p =
     (let train_set_x = fst (fst ds);
          valid_set_x = fst (fst (snd ds));
          test_set_x = fst (snd (snd ds));
          n_train = int (length train_set_x) div batch_size;
          n_valid = int (length valid_set_x) div batch_size;
          n_test = int (length test_set_x) div batch_size;
          patience0 = 10000
      in \<lparr>datasets = ds, params = p,
          n_train_batches = n_train, n_valid_batches = n_valid, n_test_batches = n_test,
          patience = patience0,
          validation_frequency = min n_train (patience0 div 2),
          best_validation_loss = PInf, best_iter = 0, test_score = Fin 0,
          epoch = 0, done_looping = False, history = []\<rparr>)"

definition evaluate_model ::
  "arith \<Rightarrow> ('x, 'y, 'm) train_fn \<Rightarrow> ('x, 'y, 'm) valid_fn \<Rightarrow> ('x, 'y) datasets \<Rightarrow> nat \<Rightarrow> nat \<Rightarrow> 'm
     \<Rightarrow> error + ('x, 'y, 'm) state" where
  "evaluate_model fp train_fn valid_fn ds n_epochs batch_size p =
     (if batch_size = 0 then Inl ZeroDivisionError
      else while_loop fp train_fn valid_fn (int n_epochs) (int batch_size)
             (initial_state ds (int batch_size) p))"

subsection \<open>What a run never changes\<close>

text \<open>
  The \<^verbatim>\<open>datasets\<close> object and the four variables computed from it before the loop.
\<close>

definition setup_of ::
  "('x, 'y, 'm) state \<Rightarrow> ('x, 'y) datasets \<times> int \<times> int \<times> int \<times> int" where
  "setup_of s = (datasets s, n_train_batches s, n_valid_batches s, n_test_batches s,
                 validation_frequency s)"

subsection \<open>A small run\<close>

text \<open>
  One training, one validation and one test example, minibatches of size one, two epochs.
  The parameters count the training steps; the validation error falls from 1/2 to 1/4
  while the test error rises from 1/10 to 3/10.
\<close>

definition demo_train_fn :: "(nat, nat, nat) train_fn" where
  "demo_train_fn xs ys p = (0, Suc p)"

definition demo_valid_fn :: "(nat, nat, nat) valid_fn" where
  "demo_valid_fn xs ys p =
     (if xs = [1] then (if p = 1 then 1 / 2 else 1 / 4)
      else (if p = 1 then 1 / 10 else 3 / 10))"

definition demo_datasets :: "(nat, nat) datasets" where
  "demo_datasets = (([0], [0]), ([1], [0]), ([2], [0]))"

definition demo_run :: "error + (nat, nat, nat) state" where
  "demo_run = evaluate_model exact demo_train_fn demo_valid_fn demo_datasets 2 1 0"

subsection \<open>Reading the history\<close>

text \<open>
  The value a variable has when iteration \<open>k\<close> of the history begins: the one the entry
  before it recorded, or the initial value set before the loop.
\<close>

definition patience_before :: "'m snapshot list \<Rightarrow> nat \<Rightarrow> int" where
  "patience_before h k = (if k = 0 then 10000 else at_patience (h ! (k - 1)))"

definition best_before :: "'m snapshot list \<Rightarrow> nat \<Rightarrow> fl" where
  "best_before h k = (if k = 0 then PInf else at_best_validation_loss (h ! (k - 1)))"

definition best_iter_before :: "'m snapshot list \<Rightarrow> nat \<Rightarrow> int" where
  "best_iter_before h k = (if k = 0 then 0 else at_best_iter (h ! (k - 1)))"

definition test_score_before :: "'m snapshot list \<Rightarrow> nat \<Rightarrow> fl" where
  "test_score_before h k = (if k = 0 then Fin 0 else at_test_score (h ! (k - 1)))"

text \<open>
  Entry \<open>k\<close> of a history is what the body of the inner loop computes from the values
  the entry before it left: the validation check, the new best and the patience.
\<close>

definition body_step ::
  "arith \<Rightarrow> ('x, 'y, 'm) valid_fn \<Rightarrow> ('x, 'y) datasets \<Rightarrow> int \<Rightarrow> 'm snapshot list \<Rightarrow> nat \<Rightarrow> bool" where
  "body_step fp valid_fn ds batch_size h k =
     (let e = h ! k;
          n_train = int (length (fst (fst ds))) div batch_size;
          n_valid = int (length (fst (fst (snd ds)))) div batch_size;
          n_test = int (length (fst (snd (snd ds)))) div batch_size;
          this = np_mean fp (batch_losses valid_fn (fst (snd ds)) n_valid batch_size (at_params e));
          test = np_mean fp (batch_losses valid_fn (snd (snd ds)) n_test batch_size (at_params e));
          check = ((at_iter e + 1) mod min n_train 5000 = 0);
          better = (check \<and> fl_less this (best_before h k))
      in at_validation e = (if check then Some this else None)
       \<and> at_patience e =
           (if better \<and> fl_less this (fl_times fp (best_before h k) improvement_threshold)
            then max (patience_before h k) (at_iter e * 2) else patience_before h k)
       \<and> at_best_validation_loss e = (if better then this else best_before h k)
       \<and> at_best_iter e = (if better then at_iter e else best_iter_before h k)
       \<and> at_test_score e = (if better then test else test_score_before h k))"

subsection \<open>Minibatches and errors, in the words of the specification\<close>

text \<open>
  Minibatch \<open>i\<close> of an array: its \<open>batch_size\<close> consecutive rows from row
  \<open>i * batch_size\<close> on. The errors of a split: \<^verbatim>\<open>valid_fn\<close> on each of its
  \<open>n div batch_size\<close> complete minibatches, in order. The arithmetic mean of a list.
\<close>

definition minibatch :: "nat \<Rightarrow> nat \<Rightarrow> 'a list \<Rightarrow> 'a list" where
  "minibatch batch_size i xs = take batch_size (drop (i * batch_size) xs)"

definition minibatch_errors ::
  "('x, 'y, 'm) valid_fn \<Rightarrow> ('x, 'y) split \<Rightarrow> nat \<Rightarrow> 'm \<Rightarrow> real list" where
  "minibatch_errors valid_fn sp batch_size p =
     map (\<lambda>i. valid_fn (minibatch batch_size i (fst sp)) (minibatch batch_size i (snd sp)) p)
         [0 ..< length (fst sp) div batch_size]"


text \<open>
  The error of a model on a split: the mean, as \<^verbatim>\<open>np.mean\<close> computes it, of the errors of
  its minibatches. The validation error and the test error are this one function on the
  second and on the third split.
\<close>

definition split_error ::
  "arith \<Rightarrow> ('x, 'y, 'm) valid_fn \<Rightarrow> ('x, 'y) split \<Rightarrow> nat \<Rightarrow> 'm \<Rightarrow> fl" where
  "split_error fp valid_fn sp batch_size p =
     np_mean fp (minibatch_errors valid_fn sp batch_size p)"

definition validation_error ::
  "arith \<Rightarrow> ('x, 'y, 'm) valid_fn \<Rightarrow> ('x, 'y) datasets \<Rightarrow> nat \<Rightarrow> 'm \<Rightarrow> fl" where
  "validation_error fp valid_fn ds batch_size p = split_error fp valid_fn (fst (snd ds)) batch_size p"

definition test_error ::
  "arith \<Rightarrow> ('x, 'y, 'm) valid_fn \<Rightarrow> ('x, 'y) datasets \<Rightarrow> nat \<Rightarrow> 'm \<Rightarrow> fl" where
  "test_error fp valid_fn ds batch_size p = split_error fp valid_fn (snd (snd ds)) batch_size p"

subsection \<open>A run whose validation set is shorter than a minibatch\<close>

text \<open>
  Two training, one validation and two test examples, minibatches of size two, one epoch.
\<close>

definition short_datasets :: "(nat, nat) datasets" where
  "short_datasets = (([0, 0], [0, 0]), ([1], [0]), ([2, 2], [0, 0]))"

definition short_run :: "error + (nat, nat, nat) state" where
  "short_run = evaluate_model exact demo_train_fn demo_valid_fn short_datasets 1 2 0"

subsection \<open>Complete minibatches\<close>

text \<open>
  The part of a split that fills complete minibatches: its first
  \<open>(n div batch_size) * batch_size\<close> examples, where \<open>n\<close> is the number of its examples.
\<close>

definition complete_minibatches :: "nat \<Rightarrow> ('x, 'y) split \<Rightarrow> ('x, 'y) split" where
  "complete_minibatches batch_size sp =
     (take (length (fst sp) div batch_size * batch_size) (fst sp),
      take (length (fst sp) div batch_size * batch_size) (snd sp))"

definition complete_part :: "nat \<Rightarrow> ('x, 'y) datasets \<Rightarrow> ('x, 'y) datasets" where
  "complete_part batch_size ds =
     (complete_minibatches batch_size (fst ds),
      complete_minibatches batch_size (fst (snd ds)),
      complete_minibatches batch_size (snd (snd ds)))"

text \<open>The datasets of the short run with a trailing example on two of its arrays.\<close>

definition longer_datasets :: "(nat, nat) datasets" where
  "longer_datasets = (([0, 0, 7], [0, 0, 7]), ([], []), ([2, 2, 9], [0, 0]))"

subsection \<open>Validation checks of an epoch\<close>

text \<open>The number of validation checks that ran in epoch \<open>j\<close>.\<close>

definition checks_in_epoch :: "'m snapshot list \<Rightarrow> int \<Rightarrow> nat" where
  "checks_in_epoch h j = length (filter (\<lambda>e. at_epoch e = j \<and> at_validation e \<noteq> None) h)"

subsection \<open>A run that the patience test stops inside an epoch\<close>

text \<open>
  Two training examples and minibatches of size one, so two minibatches an epoch; a
  validation error that is always 1/2; 5001 epochs allowed.
\<close>

definition flat_valid_fn :: "(nat, nat, nat) valid_fn" where
  "flat_valid_fn xs ys p = 1 / 2"

definition long_datasets :: "(nat, nat) datasets" where
  "long_datasets = (([0, 0], [0, 0]), ([1], [0]), ([2], [0]))"

definition long_run :: "error + (nat, nat, nat) state" where
  "long_run = evaluate_model exact demo_train_fn flat_valid_fn long_datasets 5001 1 0"

subsection \<open>A run with negative validation losses\<close>

text \<open>
  The datasets of the small run, 6001 epochs of one minibatch each, and a \<^verbatim>\<open>valid_fn\<close>
  that returns -1 on the models of the first 6000 training steps and -0.999 after that.
\<close>

definition sign_valid_fn :: "(nat, nat, nat) valid_fn" where
  "sign_valid_fn xs ys p = (if p \<le> 6000 then - 1 else - 999 / 1000)"

definition sign_run :: "error + (nat, nat, nat) state" where
  "sign_run = evaluate_model exact demo_train_fn sign_valid_fn demo_datasets 6001 1 0"

subsection \<open>The two compiled functions of the notebook\<close>

text \<open>
  \<^verbatim>\<open>theano.function\<close> is given a computation graph, that is a symbolic output and, when
  there are any, the updates of the shared variables; it compiles the graph and returns a
  callable. The symbolic expressions are built by Lasagne and Theano: each is taken as the
  function of the two inputs and of the shared variables that it denotes.
\<close>

record ('x, 'y, 'm) graph =
  graph_output :: "'x list \<Rightarrow> 'y list \<Rightarrow> 'm \<Rightarrow> real"
  graph_updates :: "('x list \<Rightarrow> 'y list \<Rightarrow> 'm \<Rightarrow> 'm) option"

text \<open>
  A call of a compiled function returns the output of its graph on the shared variables as
  they are and then applies the updates of the graph to them.
\<close>

definition run_graph :: "('x, 'y, 'm) graph \<Rightarrow> ('x, 'y, 'm) train_fn" where
  "run_graph g xs ys p =
     (graph_output g xs ys p, case graph_updates g of None \<Rightarrow> p | Some u \<Rightarrow> u xs ys p)"

text \<open>
  \<^verbatim>\<open>theano.function\<close>, with the list of the graphs compiled so far: it returns the callable
  and adds the graph to the list.
\<close>

definition theano_function ::
  "('x, 'y, 'm) graph \<Rightarrow> ('x, 'y, 'm) graph list
     \<Rightarrow> ('x, 'y, 'm) train_fn \<times> ('x, 'y, 'm) graph list" where
  "theano_function g compiled = (run_graph g, compiled @ [g])"

text \<open>The value a call returns, for a callable that the loop uses for its value only.\<close>

definition returned :: "('x, 'y, 'm) train_fn \<Rightarrow> ('x, 'y, 'm) valid_fn" where
  "returned f xs ys p = fst (f xs ys p)"

text \<open>
  The cells of the notebook that compile and train:
  \<^verbatim>\<open>train_fn = theano.function([x, y], loss, updates=updates)\<close>,
  \<^verbatim>\<open>valid_fn = theano.function([x, y], test_err)\<close> and
  \<^verbatim>\<open>evaluate_model(train_fn, valid_fn, datasets, n_epochs=200, batch_size=500)\<close>, with the
  three symbolic expressions, the loaded datasets, the initial network parameters and the
  two numbers of the last call as arguments. The result is the list of the graphs compiled
  and the outcome of \<^verbatim>\<open>evaluate_model\<close>.
\<close>

definition notebook ::
  "arith \<Rightarrow> ('x list \<Rightarrow> 'y list \<Rightarrow> 'm \<Rightarrow> real) \<Rightarrow> ('x list \<Rightarrow> 'y list \<Rightarrow> 'm \<Rightarrow> 'm)
     \<Rightarrow> ('x list \<Rightarrow> 'y list \<Rightarrow> 'm \<Rightarrow> real) \<Rightarrow> ('x, 'y) datasets \<Rightarrow> nat \<Rightarrow> nat \<Rightarrow> 'm
     \<Rightarrow> ('x, 'y, 'm) graph list \<times> (error + ('x, 'y, 'm) state)" where
  "notebook fp loss sgd_updates test_err ds n_epochs batch_size p =
     (let (train_fn, compiled1) =
            theano_function \<lparr>graph_output = loss, graph_updates = Some sgd_updates\<rparr> [];
          (valid_fn, compiled2) =
            theano_function \<lparr>graph_output = test_err, graph_updates = None\<rparr> compiled1
      in (compiled2,
          evaluate_model fp train_fn (returned valid_fn) ds n_epochs batch_size p))"

text \<open>The notebook on the data of the small run.\<close>

definition demo_notebook ::
  "(nat, nat, nat) graph list \<times> (error + (nat, nat, nat) state)" where
  "demo_notebook =
     notebook exact (\<lambda>xs ys p. 0) (\<lambda>xs ys p. Suc p) demo_valid_fn demo_datasets 2 1 0"

section \<open>Properties\<close>

subsection \<open>The body, the loops and their proof rules\<close>

lemma body_Inr:
  assumes b: "body fp tf vf bs i t = Inr t'"
  defines "it \<equiv> (epoch t - 1) * n_train_batches t + i"
  defines "p' \<equiv> snd (tf (py_slice (fst (fst (datasets t))) (i * bs) ((i + 1) * bs))
                         (py_slice (snd (fst (datasets t))) (i * bs) ((i + 1) * bs)) (params t))"
  defines "this \<equiv> np_mean fp (batch_losses vf (fst (snd (datasets t))) (n_valid_batches t) bs p')"
  defines "chk \<equiv> (it + 1) mod validation_frequency t = 0"
  defines "imp \<equiv> chk \<and> fl_less this (best_validation_loss t)"
  shows "validation_frequency t \<noteq> 0"
    and "datasets t' = datasets t"
    and "params t' = p'"
    and "n_train_batches t' = n_train_batches t"
    and "n_valid_batches t' = n_valid_batches t"
    and "n_test_batches t' = n_test_batches t"
    and "validation_frequency t' = validation_frequency t"
    and "epoch t' = epoch t"
    and "done_looping t' = done_looping t"
    and "patience t' =
          (if imp \<and> fl_less this (fl_times fp (best_validation_loss t) improvement_threshold)
           then max (patience t) (it * 2) else patience t)"
    and "best_validation_loss t' = (if imp then this else best_validation_loss t)"
    and "best_iter t' = (if imp then it else best_iter t)"
    and "test_score t' =
          (if imp then np_mean fp (batch_losses vf (snd (snd (datasets t))) (n_test_batches t) bs p')
           else test_score t)"
    and "history t' = history t @
          [\<lparr>at_epoch = epoch t, at_minibatch = i, at_iter = it, at_params = p',
            at_validation = (if chk then Some this else None),
            at_patience = patience t',
            at_best_validation_loss = best_validation_loss t',
            at_best_iter = best_iter t', at_test_score = test_score t'\<rparr>]"
  using b unfolding it_def p'_def this_def chk_def imp_def
  by (auto simp: body_def observe_def new_best_def patience_increase_def Let_def
           split: prod.splits if_splits)

lemma body_total: "validation_frequency t \<noteq> 0 \<Longrightarrow> \<exists>t'. body fp tf vf bs i t = Inr t'"
  by (simp add: body_def Let_def split: prod.splits)

lemma body_setup: "body fp tf vf bs i t = Inr t' \<Longrightarrow> setup_of t' = setup_of t"
  by (simp add: setup_of_def body_Inr)

lemma for_loop_rule:
  assumes run: "for_loop fp tf vf bs (map int [k..<n]) t = Inr t'"
    and kn: "k \<le> n"
    and start: "P (int k) t"
    and nd: "\<not> done_looping t"
    and step: "\<And>i u u'. P i u \<Longrightarrow> \<not> done_looping u \<Longrightarrow> setup_of u = setup_of t
        \<Longrightarrow> epoch u = epoch t \<Longrightarrow> int k \<le> i \<Longrightarrow> i < int n
        \<Longrightarrow> body fp tf vf bs i u = Inr u'
        \<Longrightarrow> (if patience u' \<le> (epoch u' - 1) * n_train_batches u' + i
             then Q (u'\<lparr>done_looping := True\<rparr>) else P (i + 1) u')"
  shows "(if done_looping t' then Q t' else P (int n) t') \<and> setup_of t' = setup_of t
          \<and> epoch t' = epoch t"
  using run kn start nd step
proof (induction "n - k" arbitrary: k t)
  case 0
  then show ?case by simp
next
  case (Suc d)
  then have lt: "k < n" by simp
  then have unfold: "map int [k..<n] = int k # map int [Suc k..<n]"
    by (simp add: upt_conv_Cons)
  from Suc.prems(1) obtain u where bu: "body fp tf vf bs (int k) t = Inr u"
    unfolding unfold by (auto split: sum.splits)
  have su: "setup_of u = setup_of t" and eu: "epoch u = epoch t"
    and du: "\<not> done_looping u"
    using bu Suc.prems(4) by (simp_all add: body_setup body_Inr)
  have st: "if patience u \<le> (epoch u - 1) * n_train_batches u + int k
             then Q (u\<lparr>done_looping := True\<rparr>) else P (int k + 1) u"
    using Suc.prems(5)[OF Suc.prems(3) Suc.prems(4) refl refl _ _ bu] lt by simp
  show ?case
  proof (cases "patience u \<le> (epoch u - 1) * n_train_batches u + int k")
    case True
    with Suc.prems(1) bu have "t' = u\<lparr>done_looping := True\<rparr>"
      unfolding unfold by simp
    with st True su eu show ?thesis by (simp add: setup_of_def)
  next
    case False
    with Suc.prems(1) bu have rest: "for_loop fp tf vf bs (map int [Suc k..<n]) u = Inr t'"
      unfolding unfold by simp
    have d: "d = n - Suc k" using Suc.hyps(2) by simp
    have "(if done_looping t' then Q t' else P (int n) t') \<and> setup_of t' = setup_of u
          \<and> epoch t' = epoch u"
    proof (rule Suc.hyps(1)[OF d rest])
      show "Suc k \<le> n" using lt by simp
      show "P (int (Suc k)) u" using st False by (simp add: add.commute)
      show "\<not> done_looping u" by (rule du)
      fix i v v'
      assume "P i v" "\<not> done_looping v" "setup_of v = setup_of u" "epoch v = epoch u"
        "int (Suc k) \<le> i" "i < int n" "body fp tf vf bs i v = Inr v'"
      then show "if patience v' \<le> (epoch v' - 1) * n_train_batches v' + i
                 then Q (v'\<lparr>done_looping := True\<rparr>) else P (i + 1) v'"
        using Suc.prems(5)[of i v v'] su eu by simp
    qed
    with su eu show ?thesis by simp
  qed
qed

lemma while_loop_rule:
  assumes run: "while_loop fp tf vf ne bs s = Inr s'"
    and init: "W s"
    and pass: "\<And>t t'. W t \<Longrightarrow> epoch t < ne \<Longrightarrow> \<not> done_looping t
                 \<Longrightarrow> epoch_pass fp tf vf bs t = Inr t' \<Longrightarrow> W t'"
  shows "W s' \<and> \<not> (epoch s' < ne \<and> \<not> done_looping s')"
  using run init pass
proof (induction fp tf vf ne bs s rule: while_loop.induct)
  case (1 fp tf vf ne bs s)
  show ?case
  proof (cases "epoch s < ne \<and> \<not> done_looping s")
    case True
    with "1.prems"(1) obtain t where t: "epoch_pass fp tf vf bs s = Inr t"
      and rest: "while_loop fp tf vf ne bs t = Inr s'"
      by (subst (asm) while_loop.simps) (auto split: sum.splits)
    have "W t" using "1.prems"(3)[OF "1.prems"(2) _ _ t] True by simp
    from "1.IH"[OF True t rest this "1.prems"(3)] show ?thesis by simp
  next
    case False
    with "1.prems"(1,2) show ?thesis
      by (subst (asm) while_loop.simps) auto
  qed
qed


lemma initial_state_simps:
  "datasets (initial_state ds bs p) = ds"
  "params (initial_state ds bs p) = p"
  "n_train_batches (initial_state ds bs p) = int (length (fst (fst ds))) div bs"
  "n_valid_batches (initial_state ds bs p) = int (length (fst (fst (snd ds)))) div bs"
  "n_test_batches (initial_state ds bs p) = int (length (fst (snd (snd ds)))) div bs"
  "patience (initial_state ds bs p) = 10000"
  "validation_frequency (initial_state ds bs p) = min (int (length (fst (fst ds))) div bs) 5000"
  "best_validation_loss (initial_state ds bs p) = PInf"
  "best_iter (initial_state ds bs p) = 0"
  "test_score (initial_state ds bs p) = Fin 0"
  "epoch (initial_state ds bs p) = 0"
  "done_looping (initial_state ds bs p) = False"
  "history (initial_state ds bs p) = []"
  by (simp_all add: initial_state_def Let_def)

lemma setup_of_updates:
  "setup_of (t\<lparr>epoch := e\<rparr>) = setup_of t"
  "setup_of (t\<lparr>done_looping := d\<rparr>) = setup_of t"
  by (simp_all add: setup_of_def)

lemma for_loop_setup:
  "for_loop fp tf vf bs js t = Inr t' \<Longrightarrow> setup_of t' = setup_of t"
proof (induction js arbitrary: t)
  case Nil
  then show ?case by simp
next
  case (Cons j js)
  from Cons.prems obtain u where bu: "body fp tf vf bs j t = Inr u"
    by (auto split: sum.splits)
  show ?case
  proof (cases "patience u \<le> (epoch u - 1) * n_train_batches u + j")
    case True
    with Cons.prems bu have "t' = u\<lparr>done_looping := True\<rparr>" by simp
    then show ?thesis using body_setup[OF bu] by (simp add: setup_of_updates)
  next
    case False
    with Cons.prems bu have "for_loop fp tf vf bs js u = Inr t'" by simp
    from Cons.IH[OF this] body_setup[OF bu] show ?thesis by simp
  qed
qed

lemma for_loop_total:
  "js \<noteq> [] \<longrightarrow> validation_frequency t \<noteq> 0 \<Longrightarrow> \<exists>t'. for_loop fp tf vf bs js t = Inr t'"
proof (induction js arbitrary: t)
  case Nil
  then show ?case by simp
next
  case (Cons j js)
  then have nz: "validation_frequency t \<noteq> 0" by simp
  from body_total[OF nz] obtain u where bu: "body fp tf vf bs j t = Inr u" by blast
  have "validation_frequency u \<noteq> 0" using nz body_Inr(7)[OF bu] by simp
  then have "\<exists>t'. for_loop fp tf vf bs js u = Inr t'" by (intro Cons.IH) simp
  with bu show ?case by simp
qed

lemma epoch_pass_total:
  assumes "0 < n_train_batches t \<longrightarrow> validation_frequency t \<noteq> 0"
  shows "\<exists>t'. epoch_pass fp tf vf bs t = Inr t'"
  unfolding epoch_pass_def
  by (rule for_loop_total) (use assms in \<open>auto simp: py_range_def\<close>)

lemma epoch_pass_setup:
  "epoch_pass fp tf vf bs t = Inr t' \<Longrightarrow> setup_of t' = setup_of t"
  unfolding epoch_pass_def by (drule for_loop_setup) (simp add: setup_of_updates)

lemma while_loop_total:
  assumes "0 < n_train_batches s \<longrightarrow> validation_frequency s \<noteq> 0"
  shows "\<exists>s'. while_loop fp tf vf ne bs s = Inr s'"
  using assms
proof (induction fp tf vf ne bs s rule: while_loop.induct)
  case (1 fp tf vf ne bs s)
  show ?case
  proof (cases "epoch s < ne \<and> \<not> done_looping s")
    case True
    from epoch_pass_total[OF "1.prems"] obtain t where t: "epoch_pass fp tf vf bs s = Inr t"
      by blast
    have "setup_of t = setup_of s" by (rule epoch_pass_setup[OF t])
    then have "0 < n_train_batches t \<longrightarrow> validation_frequency t \<noteq> 0"
      using "1.prems" by (simp add: setup_of_def)
    from "1.IH"[OF True t this] obtain s' where "while_loop fp tf vf ne bs t = Inr s'" by blast
    with True t show ?thesis by (subst while_loop.simps) simp
  next
    case False
    then show ?thesis by (subst while_loop.simps) auto
  qed
qed

lemma evaluate_model_total:
  assumes "0 < bs"
  shows "\<exists>s. evaluate_model fp tf vf ds ne bs p = Inr s"
proof -
  have "0 < n_train_batches (initial_state ds (int bs) p)
        \<longrightarrow> validation_frequency (initial_state ds (int bs) p) \<noteq> 0"
    by (auto simp: initial_state_simps min_def)
  from while_loop_total[OF this] show ?thesis
    using assms by (simp add: evaluate_model_def)
qed

lemma run_rule:
  assumes run: "evaluate_model fp tf vf ds ne bs p = Inr s'"
    and init: "P (n_train_batches (initial_state ds (int bs) p)) (initial_state ds (int bs) p)"
    and ep: "\<And>t. P (n_train_batches t) t \<Longrightarrow> \<not> done_looping t
        \<Longrightarrow> setup_of t = setup_of (initial_state ds (int bs) p) \<Longrightarrow> epoch t < int ne
        \<Longrightarrow> P 0 (t\<lparr>epoch := epoch t + 1\<rparr>)"
    and step: "\<And>i t t'. P i t \<Longrightarrow> \<not> done_looping t
        \<Longrightarrow> setup_of t = setup_of (initial_state ds (int bs) p)
        \<Longrightarrow> 0 \<le> i \<Longrightarrow> i < n_train_batches t \<Longrightarrow> body fp tf vf (int bs) i t = Inr t'
        \<Longrightarrow> (if patience t' \<le> (epoch t' - 1) * n_train_batches t' + i
             then Q (t'\<lparr>done_looping := True\<rparr>) else P (i + 1) t')"
  shows "(if done_looping s' then Q s' else P (n_train_batches s') s')
         \<and> setup_of s' = setup_of (initial_state ds (int bs) p)
         \<and> \<not> (epoch s' < int ne \<and> \<not> done_looping s') \<and> 0 < bs"
proof -
  define s0 where "s0 = initial_state ds (int bs) p"
  define W where "W = (\<lambda>t. (if done_looping t then Q t else P (n_train_batches t) t)
                         \<and> setup_of t = setup_of s0)"
  have bs: "0 < bs" using run by (cases "bs = 0") (simp_all add: evaluate_model_def)
  have n0: "0 \<le> n_train_batches s0"
    using bs by (simp add: s0_def initial_state_simps pos_imp_zdiv_nonneg_iff)
  have wl: "while_loop fp tf vf (int ne) (int bs) s0 = Inr s'"
    using run bs by (simp add: evaluate_model_def s0_def)
  have W0: "W s0" using init by (simp add: W_def s0_def initial_state_simps)
  have pass: "W t'" if Wt: "W t" and e: "epoch t < int ne" and nd: "\<not> done_looping t"
    and ps: "epoch_pass fp tf vf (int bs) t = Inr t'" for t t'
  proof -
    from Wt nd have Pt: "P (n_train_batches t) t" and st: "setup_of t = setup_of s0"
      by (simp_all add: W_def)
    have nt: "0 \<le> n_train_batches t" using st n0 by (simp add: setup_of_def)
    let ?u = "t\<lparr>epoch := epoch t + 1\<rparr>"
    have fl: "for_loop fp tf vf (int bs) (map int [0..<nat (n_train_batches t)]) ?u = Inr t'"
      using ps by (simp add: epoch_pass_def py_range_def)
    have "(if done_looping t' then Q t' else P (int (nat (n_train_batches t))) t')
          \<and> setup_of t' = setup_of ?u \<and> epoch t' = epoch ?u"
    proof (rule for_loop_rule[OF fl])
      show "0 \<le> nat (n_train_batches t)" by simp
      show "P (int 0) ?u" using ep[OF Pt nd _ e] st by (simp add: s0_def)
      show "\<not> done_looping ?u" using nd by simp
      fix i v v'
      assume a: "P i v" "\<not> done_looping v" "setup_of v = setup_of ?u" "epoch v = epoch ?u"
        "int 0 \<le> i" "i < int (nat (n_train_batches t))" "body fp tf vf (int bs) i v = Inr v'"
      have sv: "setup_of v = setup_of (initial_state ds (int bs) p)"
        using a(3) st by (simp add: setup_of_updates s0_def)
      have "i < n_train_batches v" using a(6) a(3) nt by (simp add: setup_of_def)
      from step[OF a(1) a(2) sv _ this a(7)] a(5)
      show "if patience v' \<le> (epoch v' - 1) * n_train_batches v' + i
            then Q (v'\<lparr>done_looping := True\<rparr>) else P (i + 1) v'" by simp
    qed
    then show ?thesis using st nt by (auto simp: W_def setup_of_updates setup_of_def)
  qed
  from while_loop_rule[of fp tf vf "int ne" "int bs" s0 s' W, OF wl W0 pass]
  show ?thesis using bs by (simp add: W_def s0_def)
qed

subsection \<open>The datasets are only read\<close>

text \<open>
  C10. \<^verbatim>\<open>evaluate_model\<close> never modifies its \<^verbatim>\<open>datasets\<close> argument: after every run that
  returns, the three splits held in the store are the ones the caller passed. The store has
  two components, the datasets and the network parameters; the parameters are written by
  the training step only, and everything else the function writes is a local variable.
\<close>

theorem datasets_unchanged:
  assumes "evaluate_model fp train_fn valid_fn ds n_epochs batch_size p = Inr s"
  shows "datasets s = ds"
proof -
  have "setup_of s = setup_of (initial_state ds (int batch_size) p)"
    using run_rule[OF assms, of "\<lambda>_ _. True" "\<lambda>_. True"] by simp
  then show ?thesis by (simp add: setup_of_def initial_state_simps)
qed

theorem datasets_unchanged_witness:
  "\<not> isl demo_run \<and> datasets (projr demo_run) = demo_datasets"
proof -
  have r: "\<not> isl demo_run" by code_simp
  then have "evaluate_model exact demo_train_fn demo_valid_fn demo_datasets 2 1 0 = Inr (projr demo_run)"
    by (simp add: demo_run_def)
  from datasets_unchanged[OF this] r show ?thesis by simp
qed

subsection \<open>The history of a run\<close>

lemma before_append:
  "k \<le> length h \<Longrightarrow> patience_before (h @ [e]) k = patience_before h k"
  "k \<le> length h \<Longrightarrow> best_before (h @ [e]) k = best_before h k"
  "k \<le> length h \<Longrightarrow> best_iter_before (h @ [e]) k = best_iter_before h k"
  "k \<le> length h \<Longrightarrow> test_score_before (h @ [e]) k = test_score_before h k"
  by (auto simp: patience_before_def best_before_def best_iter_before_def
        test_score_before_def nth_append)

lemma before_last:
  "patience_before (h @ [e]) (Suc (length h)) = at_patience e"
  "best_before (h @ [e]) (Suc (length h)) = at_best_validation_loss e"
  "best_iter_before (h @ [e]) (Suc (length h)) = at_best_iter e"
  "test_score_before (h @ [e]) (Suc (length h)) = at_test_score e"
  by (simp_all add: patience_before_def best_before_def best_iter_before_def
        test_score_before_def)

lemma body_step_append:
  "k < length h \<Longrightarrow> body_step fp vf ds bs (h @ [e]) k = body_step fp vf ds bs h k"
  by (simp add: body_step_def before_append nth_append)

lemma run_steps:
  assumes run: "evaluate_model fp tf vf ds ne bs p = Inr s"
  shows "patience s = patience_before (history s) (length (history s))
       \<and> best_validation_loss s = best_before (history s) (length (history s))
       \<and> best_iter s = best_iter_before (history s) (length (history s))
       \<and> test_score s = test_score_before (history s) (length (history s))
       \<and> (\<forall>k<length (history s). body_step fp vf ds (int bs) (history s) k)"
proof -
  define I where "I = (\<lambda>t::('a, 'b, 'c) state.
         patience t = patience_before (history t) (length (history t))
       \<and> best_validation_loss t = best_before (history t) (length (history t))
       \<and> best_iter t = best_iter_before (history t) (length (history t))
       \<and> test_score t = test_score_before (history t) (length (history t))
       \<and> (\<forall>k<length (history t). body_step fp vf ds (int bs) (history t) k))"
  let ?s0 = "initial_state ds (int bs) p"
  have step: "I t'" if It: "I t" and st: "setup_of t = setup_of ?s0"
    and b: "body fp tf vf (int bs) i t = Inr t'" for i t t'
  proof -
    note B = body_Inr[OF b]
    let ?e = "last (history t')"
    have h': "history t' = history t @ [?e]" using B(14) by simp
    have su: "datasets t = ds"
      "n_train_batches t = int (length (fst (fst ds))) div int bs"
      "n_valid_batches t = int (length (fst (fst (snd ds)))) div int bs"
      "n_test_batches t = int (length (fst (snd (snd ds)))) div int bs"
      "validation_frequency t = min (int (length (fst (fst ds))) div int bs) 5000"
      using st by (simp_all add: setup_of_def initial_state_simps)
    have e: "at_iter ?e = (epoch t - 1) * n_train_batches t + i" "at_params ?e = params t'"
      "at_patience ?e = patience t'" "at_best_validation_loss ?e = best_validation_loss t'"
      "at_best_iter ?e = best_iter t'" "at_test_score ?e = test_score t'"
      "at_validation ?e = (if ((epoch t - 1) * n_train_batches t + i + 1)
            mod validation_frequency t = 0
          then Some (np_mean fp (batch_losses vf (fst (snd (datasets t))) (n_valid_batches t)
              (int bs) (params t'))) else None)"
      by (simp_all add: B(14) B(3))
    have It': "patience t = patience_before (history t) (length (history t))"
      "best_validation_loss t = best_before (history t) (length (history t))"
      "best_iter t = best_iter_before (history t) (length (history t))"
      "test_score t = test_score_before (history t) (length (history t))"
      using It by (simp_all add: I_def)
    have old: "\<forall>k<length (history t). body_step fp vf ds (int bs) (history t @ [?e]) k"
      using It by (simp add: I_def body_step_append)
    have new: "body_step fp vf ds (int bs) (history t @ [?e]) (length (history t))"
      unfolding body_step_def Let_def nth_append_length
      by (simp only: before_append order_refl e B(3,10,11,12,13) su It'[symmetric])
    have vars: "patience t' = patience_before (history t') (length (history t'))"
      "best_validation_loss t' = best_before (history t') (length (history t'))"
      "best_iter t' = best_iter_before (history t') (length (history t'))"
      "test_score t' = test_score_before (history t') (length (history t'))"
      by (subst h', subst h', simp only: length_append_singleton before_last e)+
    have "\<forall>k<length (history t @ [?e]). body_step fp vf ds (int bs) (history t @ [?e]) k"
      using old new by (simp add: less_Suc_eq)
    then have "\<forall>k<length (history t'). body_step fp vf ds (int bs) (history t') k"
      using h' by simp
    with vars show ?thesis by (simp add: I_def)
  qed
  have I0: "I ?s0"
    by (simp add: I_def initial_state_simps patience_before_def best_before_def
          best_iter_before_def test_score_before_def)
  have "(if done_looping s then I s else (\<lambda>_. I) (n_train_batches s) s)
         \<and> setup_of s = setup_of ?s0
         \<and> \<not> (epoch s < int ne \<and> \<not> done_looping s) \<and> 0 < bs"
  proof (rule run_rule[OF run, of "\<lambda>_. I" I])
    show "I ?s0" by (rule I0)
    show "I (t\<lparr>epoch := epoch t + 1\<rparr>)" if "I t" for t
      using that by (simp add: I_def)
    fix i t t'
    assume a: "I t" "setup_of t = setup_of ?s0" "body fp tf vf (int bs) i t = Inr t'"
    have "I t'" by (rule step[OF a])
    moreover have "I (t'\<lparr>done_looping := True\<rparr>)" using \<open>I t'\<close> by (simp add: I_def)
    ultimately show "if patience t' \<le> (epoch t' - 1) * n_train_batches t' + i
        then I (t'\<lparr>done_looping := True\<rparr>) else I t'" by simp
  qed
  then have "I s" by (simp split: if_splits)
  then show ?thesis by (simp add: I_def)
qed


lemma run_shape:
  assumes run: "evaluate_model fp tf vf ds ne bs p = Inr s"
  shows "(\<forall>k<length (history s).
            at_iter (history s ! k) = int k
          \<and> at_iter (history s ! k)
              = (at_epoch (history s ! k) - 1) * n_train_batches s + at_minibatch (history s ! k)
          \<and> 0 \<le> at_minibatch (history s ! k)
          \<and> at_minibatch (history s ! k) < n_train_batches s
          \<and> 1 \<le> at_epoch (history s ! k) \<and> at_epoch (history s ! k) \<le> epoch s
          \<and> (Suc k < length (history s) \<longrightarrow> int k < at_patience (history s ! k)))
       \<and> (done_looping s \<longleftrightarrow>
            history s \<noteq> [] \<and> at_patience (last (history s)) \<le> at_iter (last (history s)))
       \<and> (done_looping s \<longrightarrow> at_epoch (last (history s)) = epoch s)
       \<and> (\<not> done_looping s \<longrightarrow> int (length (history s)) = epoch s * n_train_batches s)
       \<and> int (length (history s)) \<le> epoch s * n_train_batches s
       \<and> 0 \<le> epoch s \<and> epoch s \<le> int ne \<and> (epoch s = int ne \<or> done_looping s)
       \<and> 0 \<le> n_train_batches s"
proof -
  define E where "E = (\<lambda>(t::('a, 'b, 'c) state) k.
            at_iter (history t ! k) = int k
          \<and> at_iter (history t ! k)
              = (at_epoch (history t ! k) - 1) * n_train_batches t + at_minibatch (history t ! k)
          \<and> 0 \<le> at_minibatch (history t ! k)
          \<and> at_minibatch (history t ! k) < n_train_batches t
          \<and> 1 \<le> at_epoch (history t ! k) \<and> at_epoch (history t ! k) \<le> epoch t)"
  define P where "P = (\<lambda>i (t::('a, 'b, 'c) state).
          0 \<le> i \<and> i \<le> n_train_batches t \<and> (i < n_train_batches t \<longrightarrow> 1 \<le> epoch t)
        \<and> int (length (history t)) = (epoch t - 1) * n_train_batches t + i
        \<and> 0 \<le> epoch t \<and> epoch t \<le> int ne
        \<and> (\<forall>k<length (history t). E t k \<and> int k < at_patience (history t ! k)))"
  define Q where "Q = (\<lambda>t::('a, 'b, 'c) state.
          history t \<noteq> [] \<and> at_patience (last (history t)) \<le> at_iter (last (history t))
        \<and> at_epoch (last (history t)) = epoch t
        \<and> int (length (history t)) \<le> epoch t * n_train_batches t
        \<and> 0 \<le> epoch t \<and> epoch t \<le> int ne \<and> 0 \<le> n_train_batches t
        \<and> (\<forall>k<length (history t). E t k
              \<and> (Suc k < length (history t) \<longrightarrow> int k < at_patience (history t ! k))))"
  let ?s0 = "initial_state ds (int bs) p"
  have pred: "(a - 1) * n + n = a * n" for a n :: int
    by (simp add: algebra_simps)
  have "(if done_looping s then Q s else P (n_train_batches s) s)
         \<and> setup_of s = setup_of ?s0
         \<and> \<not> (epoch s < int ne \<and> \<not> done_looping s) \<and> 0 < bs"
  proof (rule run_rule[OF run, of P Q])
    have "0 \<le> int (length (fst (fst ds))) div int bs"
      by (simp add: pos_imp_zdiv_nonneg_iff div_int_pos_iff)
    then show "P (n_train_batches ?s0) ?s0"
      by (simp add: P_def initial_state_simps)
  next
    fix t :: "('a, 'b, 'c) state"
    assume "P (n_train_batches t) t" "epoch t < int ne"
    then show "P 0 (t\<lparr>epoch := epoch t + 1\<rparr>)"
      by (auto simp: P_def E_def pred)
  next
    fix i and t t' :: "('a, 'b, 'c) state"
    assume Pt: "P i t" and i: "0 \<le> i" "i < n_train_batches t"
      and b: "body fp tf vf (int bs) i t = Inr t'"
    note B = body_Inr[OF b]
    obtain e where h': "history t' = history t @ [e]"
      and e: "at_epoch e = epoch t" "at_minibatch e = i"
        "at_iter e = (epoch t - 1) * n_train_batches t + i" "at_patience e = patience t'"
      using B(14) by simp
    have len: "int (length (history t)) = (epoch t - 1) * n_train_batches t + i"
      and ep: "1 \<le> epoch t" "epoch t \<le> int ne"
      and old: "\<forall>k<length (history t). E t k \<and> int k < at_patience (history t ! k)"
      using Pt i by (simp_all add: P_def)
    have "E t' k = E t k" if "k < length (history t)" for k
      using that by (simp add: E_def h' nth_append B(4,8))
    then have Eold: "\<forall>k<length (history t). E t' k \<and> int k < at_patience (history t' ! k)"
      using old by (simp add: h' nth_append)
    have Enew: "E t' (length (history t))"
      using len ep i by (simp add: E_def h' e B(4,8))
    have mono: "(epoch t - 1) * n_train_batches t + i + 1 \<le> epoch t * n_train_batches t"
    proof -
      have "epoch t * n_train_batches t = (epoch t - 1) * n_train_batches t + n_train_batches t"
        by (simp add: algebra_simps)
      with i show ?thesis by simp
    qed
    show "if patience t' \<le> (epoch t' - 1) * n_train_batches t' + i
          then Q (t'\<lparr>done_looping := True\<rparr>) else P (i + 1) t'"
    proof (cases "patience t' \<le> (epoch t' - 1) * n_train_batches t' + i")
      case True
      have "Q (t'\<lparr>done_looping := True\<rparr>)"
        unfolding Q_def using True Eold Enew len ep i mono
        by (auto simp: h' e B(4,8) E_def nth_append less_Suc_eq)
      with True show ?thesis by simp
    next
      case False
      have "P (i + 1) t'"
        unfolding P_def using False Eold Enew len ep i
        by (auto simp: h' e B(4,8) nth_append less_Suc_eq)
      with False show ?thesis by simp
    qed
  qed
  then have fin: "if done_looping s then Q s else P (n_train_batches s) s"
    and stop: "epoch s < int ne \<longrightarrow> done_looping s" by auto
  show ?thesis
  proof (cases "done_looping s")
    case True
    with fin have "Q s" by simp
    then show ?thesis using True by (auto simp: Q_def E_def)
  next
    case False
    with fin have Ps: "P (n_train_batches s) s" by simp
    have "\<not> at_patience (last (history s)) \<le> at_iter (last (history s))"
      if ne: "history s \<noteq> []"
    proof -
      have "length (history s) - 1 < length (history s)" using ne by simp
      with Ps have "E s (length (history s) - 1)
          \<and> int (length (history s) - 1) < at_patience (history s ! (length (history s) - 1))"
        unfolding P_def by blast
      then show ?thesis using ne by (simp add: E_def last_conv_nth)
    qed
    then show ?thesis using Ps False stop by (auto simp: P_def E_def pred)
  qed
qed

lemma demo_run_returns:
  "evaluate_model exact demo_train_fn demo_valid_fn demo_datasets 2 1 0 = Inr (projr demo_run)"
proof -
  have "\<not> isl demo_run" by code_simp
  then show ?thesis by (simp add: demo_run_def)
qed

subsection \<open>Termination\<close>

text \<open>
  C2. For every datasets triple, every number of epochs and every batch size of at least
  one, \<^verbatim>\<open>evaluate_model\<close> returns, and it returns without an exception. When it returns,
  \<^verbatim>\<open>epoch\<close> has reached \<^verbatim>\<open>n_epochs\<close> or \<^verbatim>\<open>done_looping\<close> is set; \<^verbatim>\<open>epoch\<close> never passes
  \<^verbatim>\<open>n_epochs\<close>; \<^verbatim>\<open>done_looping\<close> is set exactly when the last minibatch iteration that
  ran ended with \<^verbatim>\<open>patience <= iter\<close>; and no iteration before the last one ended so, that
  is, the loops stop at the first such iteration. (The loops are total functions: the
  outer one by the measure \<^verbatim>\<open>n_epochs - epoch\<close>, the inner one by recursion on the range.)
\<close>

theorem evaluate_model_terminates:
  assumes "1 \<le> batch_size"
  shows "\<exists>s. evaluate_model fp train_fn valid_fn ds n_epochs batch_size p = Inr s
          \<and> (epoch s = int n_epochs \<or> done_looping s)
          \<and> epoch s \<le> int n_epochs
          \<and> (done_looping s \<longleftrightarrow>
               history s \<noteq> [] \<and> at_patience (last (history s)) \<le> at_iter (last (history s)))
          \<and> (\<forall>k. Suc k < length (history s)
                \<longrightarrow> at_iter (history s ! k) < at_patience (history s ! k))"
proof -
  from assms have "0 < batch_size" by simp
  from evaluate_model_total[OF this, of fp train_fn valid_fn ds n_epochs p]
  obtain s where run: "evaluate_model fp train_fn valid_fn ds n_epochs batch_size p = Inr s"
    by blast
  note S = run_shape[OF run]
  have "\<forall>k. Suc k < length (history s) \<longrightarrow> at_iter (history s ! k) < at_patience (history s ! k)"
  proof (intro allI impI)
    fix k assume k: "Suc k < length (history s)"
    then have "k < length (history s)" by simp
    with S k show "at_iter (history s ! k) < at_patience (history s ! k)" by simp
  qed
  with run S show ?thesis by blast
qed

theorem evaluate_model_terminates_witness:
  "(1::nat) \<le> 1 \<and> \<not> isl demo_run \<and> epoch (projr demo_run) = 2
   \<and> \<not> done_looping (projr demo_run)"
proof -
  have one: "(1::nat) \<le> 1" by simp
  from evaluate_model_terminates[OF one, of exact demo_train_fn demo_valid_fn demo_datasets 2 0]
  obtain s where s: "evaluate_model exact demo_train_fn demo_valid_fn demo_datasets 2 1 0 = Inr s"
    and stop: "epoch s = int 2 \<or> done_looping s"
    by blast
  have eq: "s = projr demo_run" using s by (simp add: demo_run_def)
  have nd: "\<not> done_looping (projr demo_run)" by code_simp
  have "\<not> isl demo_run" using s by (simp add: demo_run_def)
  with stop nd eq show ?thesis by simp
qed

subsection \<open>The number of training steps\<close>

text \<open>
  C7. Each execution of the body of the inner loop calls \<^verbatim>\<open>train_fn\<close> once and writes one
  entry of the history, so the length of the history is the number of training steps. It is
  at most \<^verbatim>\<open>n_epochs * n_train_batches\<close> and at most \<open>P + 1\<close>, where \<open>P\<close> is the largest
  value \<^verbatim>\<open>patience\<close> takes in the run (its initial value 10000 or a value it has after an
  iteration). In particular, when \<^verbatim>\<open>patience\<close> is 10000 after every iteration, at most 10001
  training steps run.
\<close>

theorem training_steps_bounded:
  assumes "evaluate_model fp train_fn valid_fn ds n_epochs batch_size p = Inr s"
  shows "int (length (history s))
           \<le> min (int n_epochs * n_train_batches s)
                 (Max (insert 10000 (at_patience ` set (history s))) + 1)
       \<and> ((\<forall>k<length (history s). at_patience (history s ! k) = 10000)
            \<longrightarrow> length (history s) \<le> 10001)"
proof -
  note S = run_shape[OF assms]
  let ?K = "length (history s)"
  let ?V = "insert 10000 (at_patience ` set (history s))"
  have fin: "finite ?V" by simp
  have "epoch s * n_train_batches s \<le> int n_epochs * n_train_batches s"
    using S by (intro mult_right_mono) simp_all
  with S have b1: "int ?K \<le> int n_epochs * n_train_batches s" by linarith
  have b2: "int ?K \<le> P + 1" if P: "10000 \<le> P" "\<forall>k<?K. at_patience (history s ! k) \<le> P" for P
  proof (cases "?K < 2")
    case True
    with P show ?thesis by simp
  next
    case False
    then have k: "?K - 2 < ?K" "Suc (?K - 2) < ?K" by simp_all
    with S have "int (?K - 2) < at_patience (history s ! (?K - 2))" by blast
    moreover have "at_patience (history s ! (?K - 2)) \<le> P" using P k by blast
    ultimately show ?thesis using False by linarith
  qed
  have "10000 \<le> Max ?V" using fin by (intro Max_ge) simp_all
  moreover have "\<forall>k<?K. at_patience (history s ! k) \<le> Max ?V"
    using fin by (auto intro!: Max_ge)
  ultimately have "int ?K \<le> Max ?V + 1" by (rule b2)
  moreover have "?K \<le> 10001" if "\<forall>k<?K. at_patience (history s ! k) = 10000"
    using b2[of 10000] that by simp
  ultimately show ?thesis using b1 by simp
qed

theorem training_steps_bounded_witness:
  "\<not> isl demo_run \<and> length (history (projr demo_run)) = 2 \<and> params (projr demo_run) = 2
   \<and> int (length (history (projr demo_run))) \<le> min (int 2 * 1) (10000 + 1)"
proof -
  have r: "\<not> isl demo_run" by code_simp
  have n: "n_train_batches (projr demo_run) = 1" by code_simp
  have l: "length (history (projr demo_run)) = 2" by code_simp
  have p: "params (projr demo_run) = 2" by code_simp
  have m: "Max (insert 10000 (at_patience ` set (history (projr demo_run)))) = 10000"
    by code_simp
  from training_steps_bounded[OF demo_run_returns] r n l p m show ?thesis by simp
qed

subsection \<open>Comparisons and means\<close>

lemma fl_less_irrefl: "\<not> fl_less a a"
  by (cases a) simp_all

lemma fl_less_trans: "fl_less a b \<Longrightarrow> fl_less b c \<Longrightarrow> fl_less a c"
  by (cases a; cases b; cases c) simp_all

lemma fl_less_PInf: "fl_less a PInf \<longleftrightarrow> (\<exists>r. a = Fin r)"
  by (cases a) simp_all

lemma fl_less_Fin: "fl_less a b \<Longrightarrow> \<exists>r. a = Fin r"
  by (cases a; cases b) simp_all

lemma before_Suc:
  "patience_before h (Suc k) = at_patience (h ! k)"
  "best_before h (Suc k) = at_best_validation_loss (h ! k)"
  "best_iter_before h (Suc k) = at_best_iter (h ! k)"
  "test_score_before h (Suc k) = at_test_score (h ! k)"
  by (simp_all add: patience_before_def best_before_def best_iter_before_def
        test_score_before_def)

lemma before_0:
  "patience_before h 0 = 10000" "best_before h 0 = PInf"
  "best_iter_before h 0 = 0" "test_score_before h 0 = Fin 0"
  by (simp_all add: patience_before_def best_before_def best_iter_before_def
        test_score_before_def)

text \<open>What \<open>body_step\<close> says about one entry, with the names of the run.\<close>

lemma run_entry:
  assumes run: "evaluate_model fp tf vf ds ne bs p = Inr s" and k: "k < length (history s)"
  defines "e \<equiv> history s ! k"
  defines "this \<equiv> np_mean fp (batch_losses vf (fst (snd ds)) (n_valid_batches s) (int bs) (at_params e))"
  defines "test \<equiv> np_mean fp (batch_losses vf (snd (snd ds)) (n_test_batches s) (int bs) (at_params e))"
  defines "check \<equiv> (at_iter e + 1) mod validation_frequency s = 0"
  defines "better \<equiv> check \<and> fl_less this (best_before (history s) k)"
  shows "at_validation e = (if check then Some this else None)"
    and "at_patience e =
           (if better \<and> fl_less this (fl_times fp (best_before (history s) k) improvement_threshold)
            then max (patience_before (history s) k) (at_iter e * 2)
            else patience_before (history s) k)"
    and "at_best_validation_loss e = (if better then this else best_before (history s) k)"
    and "at_best_iter e = (if better then at_iter e else best_iter_before (history s) k)"
    and "at_test_score e = (if better then test else test_score_before (history s) k)"
proof -
  have "setup_of s = setup_of (initial_state ds (int bs) p)"
    using run_rule[OF run, of "\<lambda>_ _. True" "\<lambda>_. True"] by simp
  then have su: "n_valid_batches s = int (length (fst (fst (snd ds)))) div int bs"
    "n_test_batches s = int (length (fst (snd (snd ds)))) div int bs"
    "validation_frequency s = min (int (length (fst (fst ds))) div int bs) 5000"
    by (simp_all add: setup_of_def initial_state_simps)
  from run_steps[OF run] k have "body_step fp vf ds (int bs) (history s) k" by blast
  then show "at_validation e = (if check then Some this else None)"
    and "at_patience e =
           (if better \<and> fl_less this (fl_times fp (best_before (history s) k) improvement_threshold)
            then max (patience_before (history s) k) (at_iter e * 2)
            else patience_before (history s) k)"
    and "at_best_validation_loss e = (if better then this else best_before (history s) k)"
    and "at_best_iter e = (if better then at_iter e else best_iter_before (history s) k)"
    and "at_test_score e = (if better then test else test_score_before (history s) k)"
    unfolding body_step_def Let_def e_def this_def test_def check_def better_def su
    by blast+
qed

lemma run_vars:
  assumes run: "evaluate_model fp tf vf ds ne bs p = Inr s"
  shows "patience s = patience_before (history s) (length (history s))"
    and "best_validation_loss s = best_before (history s) (length (history s))"
    and "best_iter s = best_iter_before (history s) (length (history s))"
    and "test_score s = test_score_before (history s) (length (history s))"
  using run_steps[OF run] by blast+

subsection \<open>Patience\<close>

lemma run_patience_step:
  assumes run: "evaluate_model fp tf vf ds ne bs p = Inr s" and k: "k < length (history s)"
  shows "patience_before (history s) k \<le> at_patience (history s ! k)"
  using run_entry(2)[OF run k] by (simp split: if_splits)

lemma run_patience_mono:
  assumes run: "evaluate_model fp tf vf ds ne bs p = Inr s"
  shows "j \<le> k \<Longrightarrow> k \<le> length (history s)
    \<Longrightarrow> patience_before (history s) j \<le> patience_before (history s) k"
proof (induction k)
  case 0
  then show ?case by simp
next
  case (Suc k)
  show ?case
  proof (cases "j = Suc k")
    case True
    then show ?thesis by simp
  next
    case False
    with Suc.prems have "j \<le> k" "k \<le> length (history s)" "k < length (history s)"
      by simp_all
    with Suc.IH run_patience_step[OF run, of k] show ?thesis
      by (simp add: before_Suc)
  qed
qed

subsection \<open>The best validation loss\<close>

lemma run_best_step:
  assumes run: "evaluate_model fp tf vf ds ne bs p = Inr s" and k: "k < length (history s)"
  defines "e \<equiv> history s ! k"
  defines "b \<equiv> best_before (history s) k"
  shows "at_best_validation_loss e = b \<or> fl_less (at_best_validation_loss e) b"
    and "fl_less (at_best_validation_loss e) b \<Longrightarrow>
           at_validation e = Some (at_best_validation_loss e) \<and> at_best_iter e = at_iter e
         \<and> at_test_score e = np_mean fp (batch_losses vf (snd (snd ds)) (n_test_batches s)
                                  (int bs) (at_params e))"
    and "\<not> fl_less (at_best_validation_loss e) b \<Longrightarrow>
           at_best_iter e = best_iter_before (history s) k
         \<and> at_test_score e = test_score_before (history s) k"
    and "at_validation e = Some l \<Longrightarrow> \<not> fl_less l (at_best_validation_loss e)"
proof -
  note E = run_entry[OF run k, folded e_def b_def]
  let ?loss = "np_mean fp (batch_losses vf (fst (snd ds)) (n_valid_batches s) (int bs) (at_params e))"
  let ?better = "(at_iter e + 1) mod validation_frequency s = 0 \<and> fl_less ?loss b"
  show "at_best_validation_loss e = b \<or> fl_less (at_best_validation_loss e) b"
    using E(3) by (cases ?better) simp_all
  show "at_validation e = Some (at_best_validation_loss e) \<and> at_best_iter e = at_iter e
         \<and> at_test_score e = np_mean fp (batch_losses vf (snd (snd ds)) (n_test_batches s)
                                  (int bs) (at_params e))"
    if "fl_less (at_best_validation_loss e) b"
  proof (cases ?better)
    case True
    with E show ?thesis by simp
  next
    case False
    with E(3) have "at_best_validation_loss e = b" by auto
    with that show ?thesis by (simp add: fl_less_irrefl)
  qed
  show "at_best_iter e = best_iter_before (history s) k
         \<and> at_test_score e = test_score_before (history s) k"
    if "\<not> fl_less (at_best_validation_loss e) b"
  proof (cases ?better)
    case True
    with E(3) that show ?thesis by simp
  next
    case False
    with E show ?thesis by auto
  qed
  show "\<not> fl_less l (at_best_validation_loss e)" if "at_validation e = Some l"
  proof (cases ?better)
    case True
    with E(1,3) that show ?thesis by (auto simp: fl_less_irrefl)
  next
    case False
    with E(1,3) that show ?thesis by (auto split: if_splits)
  qed
qed

lemma run_best_lower:
  assumes run: "evaluate_model fp tf vf ds ne bs p = Inr s"
  shows "k \<le> length (history s) \<Longrightarrow> j < k \<Longrightarrow> at_validation (history s ! j) = Some l
    \<Longrightarrow> \<not> fl_less l (best_before (history s) k)"
proof (induction k)
  case 0
  then show ?case by simp
next
  case (Suc k)
  then have k: "k < length (history s)" by simp
  note B = run_best_step[OF run k]
  show ?case
  proof (cases "j = k")
    case True
    with B(4) Suc.prems(3) show ?thesis by (simp add: before_Suc)
  next
    case False
    with Suc.prems have "j < k" by simp
    with Suc.IH Suc.prems k have old: "\<not> fl_less l (best_before (history s) k)" by simp
    show ?thesis
    proof
      assume "fl_less l (best_before (history s) (Suc k))"
      then have a: "fl_less l (at_best_validation_loss (history s ! k))"
        by (simp add: before_Suc)
      from B(1) show False
      proof
        assume "at_best_validation_loss (history s ! k) = best_before (history s) k"
        with a old show False by simp
      next
        assume "fl_less (at_best_validation_loss (history s ! k)) (best_before (history s) k)"
        from fl_less_trans[OF a this] old show False by simp
      qed
    qed
  qed
qed

lemma run_best_attained:
  assumes run: "evaluate_model fp tf vf ds ne bs p = Inr s"
  shows "k \<le> length (history s) \<Longrightarrow>
    best_before (history s) k = PInf
    \<or> (\<exists>j<k. at_validation (history s ! j) = Some (best_before (history s) k))"
proof (induction k)
  case 0
  then show ?case by (simp add: before_0)
next
  case (Suc k)
  then have k: "k < length (history s)" by simp
  note B = run_best_step[OF run k]
  from B(1) show ?case
  proof
    assume eq: "at_best_validation_loss (history s ! k) = best_before (history s) k"
    from Suc.IH k have "best_before (history s) k = PInf
      \<or> (\<exists>j<k. at_validation (history s ! j) = Some (best_before (history s) k))" by simp
    then show ?thesis
    proof
      assume "best_before (history s) k = PInf"
      with eq show ?thesis by (simp add: before_Suc)
    next
      assume "\<exists>j<k. at_validation (history s ! j) = Some (best_before (history s) k)"
      then obtain j where "j < k" "at_validation (history s ! j) = Some (best_before (history s) k)"
        by blast
      with eq have "j < Suc k"
        "at_validation (history s ! j) = Some (best_before (history s) (Suc k))"
        by (simp_all add: before_Suc)
      then show ?thesis by blast
    qed
  next
    assume "fl_less (at_best_validation_loss (history s ! k)) (best_before (history s) k)"
    from B(2)[OF this]
    have "at_validation (history s ! k) = Some (best_before (history s) (Suc k))"
      by (simp add: before_Suc)
    then show ?thesis by blast
  qed
qed

lemma run_best_recent:
  assumes run: "evaluate_model fp tf vf ds ne bs p = Inr s"
  defines "imp \<equiv> (\<lambda>j. fl_less (at_best_validation_loss (history s ! j))
                          (best_before (history s) j))"
  shows "k \<le> length (history s) \<Longrightarrow>
    ((\<forall>j<k. \<not> imp j) \<and> best_iter_before (history s) k = 0)
    \<or> (\<exists>j<k. imp j \<and> (\<forall>i. j < i \<and> i < k \<longrightarrow> \<not> imp i)
              \<and> best_iter_before (history s) k = int j)"
proof (induction k)
  case 0
  then show ?case by (simp add: before_0)
next
  case (Suc k)
  then have k: "k < length (history s)" by simp
  note B = run_best_step[OF run k]
  have it: "at_iter (history s ! k) = int k" using run_shape[OF run] k by blast
  show ?case
  proof (cases "imp k")
    case True
    then have "best_iter_before (history s) (Suc k) = int k"
      using B(2) it by (simp add: before_Suc imp_def)
    with True have "k < Suc k \<and> imp k \<and> (\<forall>i. k < i \<and> i < Suc k \<longrightarrow> \<not> imp i)
              \<and> best_iter_before (history s) (Suc k) = int k" by auto
    then show ?thesis by blast
  next
    case False
    then have same: "best_iter_before (history s) (Suc k) = best_iter_before (history s) k"
      using B(3) by (simp add: before_Suc imp_def)
    from Suc.IH k have "((\<forall>j<k. \<not> imp j) \<and> best_iter_before (history s) k = 0)
      \<or> (\<exists>j<k. imp j \<and> (\<forall>i. j < i \<and> i < k \<longrightarrow> \<not> imp i)
              \<and> best_iter_before (history s) k = int j)" by simp
    then show ?thesis
    proof
      assume "(\<forall>j<k. \<not> imp j) \<and> best_iter_before (history s) k = 0"
      with False same have "(\<forall>j<Suc k. \<not> imp j) \<and> best_iter_before (history s) (Suc k) = 0"
        by (simp add: less_Suc_eq)
      then show ?thesis by blast
    next
      assume "\<exists>j<k. imp j \<and> (\<forall>i. j < i \<and> i < k \<longrightarrow> \<not> imp i)
              \<and> best_iter_before (history s) k = int j"
      then obtain j where j: "j < k" "imp j" "\<forall>i. j < i \<and> i < k \<longrightarrow> \<not> imp i"
        "best_iter_before (history s) k = int j" by blast
      with False same have "j < Suc k \<and> imp j \<and> (\<forall>i. j < i \<and> i < Suc k \<longrightarrow> \<not> imp i)
              \<and> best_iter_before (history s) (Suc k) = int j"
        by (auto simp: less_Suc_eq)
      then show ?thesis by blast
    qed
  qed
qed

subsection \<open>Slices are minibatches\<close>

lemma py_slice_nat: "py_slice xs (int a) (int b) = take (b - a) (drop a xs)"
proof -
  have l: "slice_bound (int (length xs)) (int a) = min a (length xs)"
    and h: "slice_bound (int (length xs)) (int b) = min b (length xs)"
    by (simp_all add: slice_bound_def min_def)
  show ?thesis
  proof (cases "a \<le> length xs")
    case True
    show ?thesis
    proof (cases "b \<le> length xs")
      case True
      with \<open>a \<le> length xs\<close> show ?thesis by (simp add: py_slice_def Let_def l h)
    next
      case False
      with \<open>a \<le> length xs\<close> show ?thesis by (simp add: py_slice_def Let_def l h min_def)
    qed
  next
    case False
    then show ?thesis by (simp add: py_slice_def Let_def l h min_def)
  qed
qed

lemma py_slice_minibatch:
  "py_slice xs (int i * int bs) ((int i + 1) * int bs) = minibatch bs i xs"
proof -
  have hi: "(int i + 1) * int bs = int (Suc i * bs)" and lo: "int i * int bs = int (i * bs)"
    by (simp_all add: algebra_simps)
  have "Suc i * bs - i * bs = bs" by simp
  then show ?thesis unfolding hi lo py_slice_nat minibatch_def by (rule arg_cong2) simp
qed

lemma batch_losses_minibatch_errors:
  "batch_losses vf sp (int (length (fst sp) div bs)) (int bs) p = minibatch_errors vf sp bs p"
  by (simp add: batch_losses_def minibatch_errors_def py_range_def o_def py_slice_minibatch)

lemma run_setup:
  assumes run: "evaluate_model fp tf vf ds ne bs p = Inr s"
  shows "datasets s = ds"
    and "n_train_batches s = int (length (fst (fst ds)) div bs)"
    and "n_valid_batches s = int (length (fst (fst (snd ds))) div bs)"
    and "n_test_batches s = int (length (fst (snd (snd ds))) div bs)"
    and "validation_frequency s = min (n_train_batches s) 5000"
    and "0 < bs"
proof -
  have "setup_of s = setup_of (initial_state ds (int bs) p) \<and> 0 < bs"
    using run_rule[OF run, of "\<lambda>_ _. True" "\<lambda>_. True"] by simp
  then show "datasets s = ds"
    and "n_train_batches s = int (length (fst (fst ds)) div bs)"
    and "n_valid_batches s = int (length (fst (fst (snd ds))) div bs)"
    and "n_test_batches s = int (length (fst (snd (snd ds))) div bs)"
    and "validation_frequency s = min (n_train_batches s) 5000"
    and "0 < bs"
    by (simp_all add: setup_of_def initial_state_simps zdiv_int)
qed

lemma run_errors:
  assumes run: "evaluate_model fp tf vf ds ne bs p = Inr s"
  shows "np_mean fp (batch_losses vf (fst (snd ds)) (n_valid_batches s) (int bs) q)
           = validation_error fp vf ds bs q"
    and "np_mean fp (batch_losses vf (snd (snd ds)) (n_test_batches s) (int bs) q)
           = test_error fp vf ds bs q"
  unfolding run_setup(3,4)[OF run] batch_losses_minibatch_errors
    validation_error_def test_error_def split_error_def
  by (rule refl)+

subsection \<open>The running minimum\<close>

text \<open>
  C9. Throughout a run \<^verbatim>\<open>best_validation_loss\<close> never increases: an iteration leaves it as
  it was or makes it strictly smaller. After iteration \<open>k\<close> no validation loss computed so
  far is smaller than it, and it is \<open>+inf\<close>, its initial value, or one of these losses: it
  is their minimum. \<^verbatim>\<open>best_iter\<close> and \<^verbatim>\<open>test_score\<close> are assigned at the iterations where
  \<^verbatim>\<open>best_validation_loss\<close> strictly decreases (to this iteration and to the mean error over
  the test minibatches) and keep their values at all others; so \<^verbatim>\<open>best_iter\<close> is the
  iteration of the most recent strict decrease, or 0 when there has been none.
\<close>

theorem best_validation_loss_is_running_minimum:
  assumes run: "evaluate_model fp train_fn valid_fn ds n_epochs batch_size p = Inr s"
  shows "(\<forall>k<length (history s).
           (at_best_validation_loss (history s ! k) = best_before (history s) k
            \<or> fl_less (at_best_validation_loss (history s ! k)) (best_before (history s) k))
         \<and> (\<forall>j l. j \<le> k \<and> at_validation (history s ! j) = Some l
               \<longrightarrow> \<not> fl_less l (at_best_validation_loss (history s ! k)))
         \<and> (at_best_validation_loss (history s ! k) = PInf
            \<or> (\<exists>j\<le>k. at_validation (history s ! j)
                        = Some (at_best_validation_loss (history s ! k))))
         \<and> (if fl_less (at_best_validation_loss (history s ! k)) (best_before (history s) k)
            then at_validation (history s ! k) = Some (at_best_validation_loss (history s ! k))
               \<and> at_best_iter (history s ! k) = int k
               \<and> at_test_score (history s ! k)
                   = test_error fp valid_fn ds batch_size (at_params (history s ! k))
            else at_best_iter (history s ! k) = best_iter_before (history s) k
               \<and> at_test_score (history s ! k) = test_score_before (history s) k)
         \<and> ((\<forall>j\<le>k. \<not> fl_less (at_best_validation_loss (history s ! j))
                            (best_before (history s) j))
              \<and> at_best_iter (history s ! k) = 0
            \<or> (\<exists>j\<le>k. fl_less (at_best_validation_loss (history s ! j))
                             (best_before (history s) j)
                 \<and> (\<forall>i. j < i \<and> i \<le> k
                       \<longrightarrow> \<not> fl_less (at_best_validation_loss (history s ! i))
                                      (best_before (history s) i))
                 \<and> at_best_iter (history s ! k) = int j)))
       \<and> best_before (history s) 0 = PInf
       \<and> best_validation_loss s = best_before (history s) (length (history s))
       \<and> best_iter s = best_iter_before (history s) (length (history s))
       \<and> test_score s = test_score_before (history s) (length (history s))"
proof -
  let ?h = "history s"
  have each: "(at_best_validation_loss (?h ! k) = best_before ?h k
            \<or> fl_less (at_best_validation_loss (?h ! k)) (best_before ?h k))
         \<and> (\<forall>j l. j \<le> k \<and> at_validation (?h ! j) = Some l
               \<longrightarrow> \<not> fl_less l (at_best_validation_loss (?h ! k)))
         \<and> (at_best_validation_loss (?h ! k) = PInf
            \<or> (\<exists>j\<le>k. at_validation (?h ! j) = Some (at_best_validation_loss (?h ! k))))
         \<and> (if fl_less (at_best_validation_loss (?h ! k)) (best_before ?h k)
            then at_validation (?h ! k) = Some (at_best_validation_loss (?h ! k))
               \<and> at_best_iter (?h ! k) = int k
               \<and> at_test_score (?h ! k) = test_error fp valid_fn ds batch_size (at_params (?h ! k))
            else at_best_iter (?h ! k) = best_iter_before ?h k
               \<and> at_test_score (?h ! k) = test_score_before ?h k)
         \<and> ((\<forall>j\<le>k. \<not> fl_less (at_best_validation_loss (?h ! j)) (best_before ?h j))
              \<and> at_best_iter (?h ! k) = 0
            \<or> (\<exists>j\<le>k. fl_less (at_best_validation_loss (?h ! j)) (best_before ?h j)
                 \<and> (\<forall>i. j < i \<and> i \<le> k
                       \<longrightarrow> \<not> fl_less (at_best_validation_loss (?h ! i)) (best_before ?h i))
                 \<and> at_best_iter (?h ! k) = int j))"
    if k: "k < length ?h" for k
  proof -
    from k have sk: "Suc k \<le> length ?h" by simp
    note B = run_best_step[OF run k]
    have it: "at_iter (?h ! k) = int k" using run_shape[OF run] k by blast
    have c1: "at_best_validation_loss (?h ! k) = best_before ?h k
            \<or> fl_less (at_best_validation_loss (?h ! k)) (best_before ?h k)"
      by (rule B(1))
    have c2: "\<forall>j l. j \<le> k \<and> at_validation (?h ! j) = Some l
               \<longrightarrow> \<not> fl_less l (at_best_validation_loss (?h ! k))"
      using run_best_lower[OF run sk] by (auto simp: before_Suc less_Suc_eq_le)
    have c3: "at_best_validation_loss (?h ! k) = PInf
            \<or> (\<exists>j\<le>k. at_validation (?h ! j) = Some (at_best_validation_loss (?h ! k)))"
      using run_best_attained[OF run sk] by (simp add: before_Suc less_Suc_eq_le)
    have c4: "if fl_less (at_best_validation_loss (?h ! k)) (best_before ?h k)
            then at_validation (?h ! k) = Some (at_best_validation_loss (?h ! k))
               \<and> at_best_iter (?h ! k) = int k
               \<and> at_test_score (?h ! k) = test_error fp valid_fn ds batch_size (at_params (?h ! k))
            else at_best_iter (?h ! k) = best_iter_before ?h k
               \<and> at_test_score (?h ! k) = test_score_before ?h k"
      using B(2,3) it by (simp add: run_errors[OF run])
    have c5: "(\<forall>j\<le>k. \<not> fl_less (at_best_validation_loss (?h ! j)) (best_before ?h j))
              \<and> at_best_iter (?h ! k) = 0
            \<or> (\<exists>j\<le>k. fl_less (at_best_validation_loss (?h ! j)) (best_before ?h j)
                 \<and> (\<forall>i. j < i \<and> i \<le> k
                       \<longrightarrow> \<not> fl_less (at_best_validation_loss (?h ! i)) (best_before ?h i))
                 \<and> at_best_iter (?h ! k) = int j)"
      using run_best_recent[OF run sk] by (simp add: before_Suc less_Suc_eq_le)
    from c1 c2 c3 c4 c5 show ?thesis by blast
  qed
  with run_vars(2,3,4)[OF run] show ?thesis by (simp add: before_0)
qed

theorem best_validation_loss_is_running_minimum_witness:
  "\<not> isl demo_run
   \<and> at_validation (history (projr demo_run) ! 1) = Some (Fin (1 / 4))
   \<and> at_best_iter (history (projr demo_run) ! 1) = 1
   \<and> at_test_score (history (projr demo_run) ! 1) = Fin (3 / 10)
   \<and> best_validation_loss (projr demo_run) = Fin (1 / 4)"
proof -
  have r: "\<not> isl demo_run" by code_simp
  have one: "1 < length (history (projr demo_run))" by code_simp
  have len: "length (history (projr demo_run)) = 2" by code_simp
  have b: "at_best_validation_loss (history (projr demo_run) ! 1) = Fin (1 / 4)" by code_simp
  have bb: "best_before (history (projr demo_run)) 1 = Fin (1 / 2)" by code_simp
  have bl: "best_before (history (projr demo_run)) 2 = Fin (1 / 4)" by code_simp
  have te: "test_error exact demo_valid_fn demo_datasets 1 (at_params (history (projr demo_run) ! 1))
            = Fin (3 / 10)" by code_simp
  note T = best_validation_loss_is_running_minimum[OF demo_run_returns]
  note T1 = conjunct1[OF T, rule_format, OF one]
  from T1 have "if fl_less (at_best_validation_loss (history (projr demo_run) ! 1))
                     (best_before (history (projr demo_run)) 1)
      then at_validation (history (projr demo_run) ! 1)
             = Some (at_best_validation_loss (history (projr demo_run) ! 1))
         \<and> at_best_iter (history (projr demo_run) ! 1) = int 1
         \<and> at_test_score (history (projr demo_run) ! 1)
             = test_error exact demo_valid_fn demo_datasets 1 (at_params (history (projr demo_run) ! 1))
      else at_best_iter (history (projr demo_run) ! 1) = best_iter_before (history (projr demo_run)) 1
         \<and> at_test_score (history (projr demo_run) ! 1)
             = test_score_before (history (projr demo_run)) 1"
    by blast
  then have "at_validation (history (projr demo_run) ! 1) = Some (Fin (1 / 4))
         \<and> at_best_iter (history (projr demo_run) ! 1) = 1
         \<and> at_test_score (history (projr demo_run) ! 1) = Fin (3 / 10)"
    unfolding b bb te by simp
  moreover from T have "best_validation_loss (projr demo_run) = Fin (1 / 4)"
    by (simp add: len bl)
  ultimately show ?thesis using r by simp
qed

subsection \<open>The model recorded as best\<close>





subsection \<open>What the validation check and the test score compute\<close>

lemma run_losses:
  assumes run: "evaluate_model fp tf vf ds ne bs p = Inr s" and k: "k < length (history s)"
  shows "at_validation (history s ! k) = Some l
          \<Longrightarrow> l = split_error fp vf (fst (snd ds)) bs (at_params (history s ! k))"
    and "fl_less (at_best_validation_loss (history s ! k)) (best_before (history s) k)
          \<Longrightarrow> at_test_score (history s ! k)
              = split_error fp vf (snd (snd ds)) bs (at_params (history s ! k))"
proof -
  show "l = split_error fp vf (fst (snd ds)) bs (at_params (history s ! k))"
    if "at_validation (history s ! k) = Some l"
    using that run_entry(1)[OF run k]
    by (simp add: run_errors[OF run] validation_error_def split: if_splits)
  show "at_test_score (history s ! k)
        = split_error fp vf (snd (snd ds)) bs (at_params (history s ! k))"
    if "fl_less (at_best_validation_loss (history s ! k)) (best_before (history s) k)"
    using run_best_step(2)[OF run k that]
    by (simp add: run_errors[OF run] test_error_def)
qed





text \<open>
  C6. The notebook compiles exactly two computation graphs: the training step, with output
  \<^verbatim>\<open>loss\<close> and the SGD updates, and the validation/test step, with output \<^verbatim>\<open>test_err\<close>
  and no updates. There is no third graph for testing: in the run of \<^verbatim>\<open>evaluate_model\<close>
  the validation loss of every check and the test score of every new best model are both
  means of the values returned by the one function compiled from the second graph, on the
  same parameters, once over the minibatches of the validation split and once over those
  of the test split.
\<close>

theorem notebook_compiles_two_graphs:
  "fst (notebook fp loss sgd_updates test_err ds n_epochs batch_size p)
     = [\<lparr>graph_output = loss, graph_updates = Some sgd_updates\<rparr>,
        \<lparr>graph_output = test_err, graph_updates = None\<rparr>]
   \<and> length (fst (notebook fp loss sgd_updates test_err ds n_epochs batch_size p)) = 2
   \<and> (snd (notebook fp loss sgd_updates test_err ds n_epochs batch_size p) = Inr s \<longrightarrow>
       (\<forall>k<length (history s).
          (\<forall>l. at_validation (history s ! k) = Some l \<longrightarrow>
             l = split_error fp
                   (returned (run_graph
                      (fst (notebook fp loss sgd_updates test_err ds n_epochs batch_size p) ! 1)))
                   (fst (snd ds)) batch_size (at_params (history s ! k)))
        \<and> (fl_less (at_best_validation_loss (history s ! k)) (best_before (history s) k) \<longrightarrow>
             at_test_score (history s ! k)
               = split_error fp
                   (returned (run_graph
                      (fst (notebook fp loss sgd_updates test_err ds n_epochs batch_size p) ! 1)))
                   (snd (snd ds)) batch_size (at_params (history s ! k)))))"
proof -
  let ?g1 = "\<lparr>graph_output = loss, graph_updates = Some sgd_updates\<rparr>"
  let ?g2 = "\<lparr>graph_output = test_err, graph_updates = None\<rparr>"
  let ?nb = "notebook fp loss sgd_updates test_err ds n_epochs batch_size p"
  have c: "fst ?nb = [?g1, ?g2]"
    by (simp add: notebook_def theano_function_def)
  have r: "snd ?nb = evaluate_model fp (run_graph ?g1) (returned (run_graph ?g2)) ds n_epochs
             batch_size p"
    by (simp add: notebook_def theano_function_def)
  have g: "fst ?nb ! 1 = ?g2" unfolding c by simp
  have "(\<forall>l. at_validation (history s ! k) = Some l \<longrightarrow>
             l = split_error fp (returned (run_graph (fst ?nb ! 1)))
                   (fst (snd ds)) batch_size (at_params (history s ! k)))
        \<and> (fl_less (at_best_validation_loss (history s ! k)) (best_before (history s) k) \<longrightarrow>
             at_test_score (history s ! k)
               = split_error fp (returned (run_graph (fst ?nb ! 1)))
                   (snd (snd ds)) batch_size (at_params (history s ! k)))"
    if run: "snd ?nb = Inr s" and k: "k < length (history s)" for k
    unfolding g using run_losses[OF run[unfolded r] k] by blast
  with c show ?thesis by simp
qed

theorem notebook_compiles_two_graphs_witness:
  "\<not> isl (snd demo_notebook) \<and> length (fst demo_notebook) = 2
   \<and> at_validation (history (projr (snd demo_notebook)) ! 0) = Some (Fin (1 / 2))
   \<and> at_test_score (history (projr (snd demo_notebook)) ! 0) = Fin (1 / 10)"
proof -
  let ?s = "projr (snd demo_notebook)"
  have r: "\<not> isl (snd demo_notebook)" by code_simp
  then have run: "snd (notebook exact (\<lambda>xs ys p. 0) (\<lambda>xs ys p. Suc p) demo_valid_fn
                     demo_datasets 2 1 (0::nat)) = Inr ?s"
    by (simp add: demo_notebook_def)
  have zero: "0 < length (history ?s)" by code_simp
  have v: "at_validation (history ?s ! 0) = Some (Fin (1 / 2))" by code_simp
  have imp: "fl_less (at_best_validation_loss (history ?s ! 0)) (best_before (history ?s) 0)"
    by code_simp
  have e: "split_error exact (returned (run_graph (fst demo_notebook ! 1)))
             (snd (snd demo_datasets)) 1 (at_params (history ?s ! 0)) = Fin (1 / 10)"
    by code_simp
  note T = notebook_compiles_two_graphs[of exact "\<lambda>xs ys p. 0" "\<lambda>xs ys p. Suc p"
      demo_valid_fn demo_datasets 2 1 "0::nat" ?s, folded demo_notebook_def]
  from T have l: "length (fst demo_notebook) = 2" by blast
  note T3 = conjunct2[OF conjunct2[OF T], THEN mp, OF run[folded demo_notebook_def],
      rule_format, OF zero]
  from conjunct2[OF T3, THEN mp, OF imp] e
  have "at_test_score (history ?s ! 0) = Fin (1 / 10)" by simp
  with r l v show ?thesis by simp
qed

subsection \<open>Only complete minibatches are read\<close>

lemma minibatch_take:
  "Suc i * bs \<le> m \<Longrightarrow> minibatch bs i (take m xs) = minibatch bs i xs"
proof -
  assume a: "Suc i * bs \<le> m"
  then have "bs \<le> m - i * bs" by simp
  then have "min bs (m - i * bs) = bs" by simp
  then show ?thesis by (simp add: minibatch_def drop_take)
qed

lemma complete_minibatches_agree:
  assumes eq: "complete_minibatches bs sp' = complete_minibatches bs sp" and bs: "0 < bs"
  shows "length (fst sp') div bs = length (fst sp) div bs"
    and "i < length (fst sp) div bs \<Longrightarrow> minibatch bs i (fst sp') = minibatch bs i (fst sp)"
    and "i < length (fst sp) div bs \<Longrightarrow> minibatch bs i (snd sp') = minibatch bs i (snd sp)"
proof -
  let ?m = "length (fst sp) div bs * bs" and ?m' = "length (fst sp') div bs * bs"
  from eq have x: "take ?m' (fst sp') = take ?m (fst sp)"
    and y: "take ?m' (snd sp') = take ?m (snd sp)"
    by (simp_all add: complete_minibatches_def)
  have "length (take ?m (fst sp)) = ?m" "length (take ?m' (fst sp')) = ?m'"
    by (simp_all add: min_absorb2)
  with x have m: "?m' = ?m" by metis
  with bs show n: "length (fst sp') div bs = length (fst sp) div bs" by simp
  assume i: "i < length (fst sp) div bs"
  then have "Suc i \<le> length (fst sp) div bs" by simp
  then have le: "Suc i * bs \<le> ?m" by (rule mult_le_mono1)
  have le': "Suc i * bs \<le> ?m'" unfolding m by (rule le)
  have "minibatch bs i (fst sp') = minibatch bs i (take ?m' (fst sp'))"
    by (rule minibatch_take[OF le', symmetric])
  also have "\<dots> = minibatch bs i (fst sp)" unfolding x using le by (rule minibatch_take)
  finally show "minibatch bs i (fst sp') = minibatch bs i (fst sp)" .
  have "minibatch bs i (snd sp') = minibatch bs i (take ?m' (snd sp'))"
    by (rule minibatch_take[OF le', symmetric])
  also have "\<dots> = minibatch bs i (snd sp)" unfolding y using le by (rule minibatch_take)
  finally show "minibatch bs i (snd sp') = minibatch bs i (snd sp)" .
qed

lemma minibatch_errors_agree:
  assumes eq: "complete_minibatches bs sp' = complete_minibatches bs sp" and bs: "0 < bs"
  shows "minibatch_errors vf sp' bs q = minibatch_errors vf sp bs q"
  unfolding minibatch_errors_def complete_minibatches_agree(1)[OF eq bs]
  by (rule map_cong[OF refl]) (simp add: complete_minibatches_agree(2,3)[OF eq bs])


lemma body_data:
  assumes "py_slice (fst (fst ds')) (i * bs) ((i + 1) * bs)
              = py_slice (fst (fst (datasets t))) (i * bs) ((i + 1) * bs)"
    and "py_slice (snd (fst ds')) (i * bs) ((i + 1) * bs)
              = py_slice (snd (fst (datasets t))) (i * bs) ((i + 1) * bs)"
    and "\<And>q. batch_losses vf (fst (snd ds')) (n_valid_batches t) bs q
              = batch_losses vf (fst (snd (datasets t))) (n_valid_batches t) bs q"
    and "\<And>q. batch_losses vf (snd (snd ds')) (n_test_batches t) bs q
              = batch_losses vf (snd (snd (datasets t))) (n_test_batches t) bs q"
  shows "body fp tf vf bs i (t\<lparr>datasets := ds'\<rparr>)
         = map_sum (\<lambda>e. e) (\<lambda>u. u\<lparr>datasets := ds'\<rparr>) (body fp tf vf bs i t)"
  by (simp add: body_def Let_def new_best_def observe_def assms split: prod.splits)

lemma for_loop_data:
  assumes sl: "\<And>i. i \<in> set js \<Longrightarrow>
        py_slice (fst (fst ds')) (i * bs) ((i + 1) * bs)
          = py_slice (fst (fst ds)) (i * bs) ((i + 1) * bs)
      \<and> py_slice (snd (fst ds')) (i * bs) ((i + 1) * bs)
          = py_slice (snd (fst ds)) (i * bs) ((i + 1) * bs)"
    and va: "\<And>q. batch_losses vf (fst (snd ds')) nv bs q = batch_losses vf (fst (snd ds)) nv bs q"
    and te: "\<And>q. batch_losses vf (snd (snd ds')) ns bs q = batch_losses vf (snd (snd ds)) ns bs q"
    and st: "datasets t = ds" "n_valid_batches t = nv" "n_test_batches t = ns"
  shows "for_loop fp tf vf bs js (t\<lparr>datasets := ds'\<rparr>)
         = map_sum (\<lambda>e. e) (\<lambda>u. u\<lparr>datasets := ds'\<rparr>) (for_loop fp tf vf bs js t)"
  using sl st
proof (induction js arbitrary: t)
  case Nil
  then show ?case by simp
next
  case (Cons j js)
  have b: "body fp tf vf bs j (t\<lparr>datasets := ds'\<rparr>)
         = map_sum (\<lambda>e. e) (\<lambda>u. u\<lparr>datasets := ds'\<rparr>) (body fp tf vf bs j t)"
    using Cons.prems(1)[of j] va te unfolding Cons.prems(2,3,4)[symmetric]
    by (intro body_data) simp_all
  show ?case
  proof (cases "body fp tf vf bs j t")
    case (Inl e)
    with b show ?thesis by simp
  next
    case (Inr u)
    note B = body_Inr[OF Inr]
    show ?thesis
    proof (cases "patience u \<le> (epoch u - 1) * n_train_batches u + j")
      case True
      with b Inr show ?thesis by simp
    next
      case False
      have "for_loop fp tf vf bs js (u\<lparr>datasets := ds'\<rparr>)
         = map_sum (\<lambda>e. e) (\<lambda>u. u\<lparr>datasets := ds'\<rparr>) (for_loop fp tf vf bs js u)"
        using Cons.prems B(2,5,6) by (intro Cons.IH) simp_all
      with b Inr False show ?thesis by simp
    qed
  qed
qed

lemma while_loop_data:
  assumes sl: "\<And>i. i \<in> set (py_range (n_train_batches t)) \<Longrightarrow>
        py_slice (fst (fst ds')) (i * bs) ((i + 1) * bs)
          = py_slice (fst (fst ds)) (i * bs) ((i + 1) * bs)
      \<and> py_slice (snd (fst ds')) (i * bs) ((i + 1) * bs)
          = py_slice (snd (fst ds)) (i * bs) ((i + 1) * bs)"
    and va: "\<And>q. batch_losses vf (fst (snd ds')) (n_valid_batches t) bs q
                = batch_losses vf (fst (snd ds)) (n_valid_batches t) bs q"
    and te: "\<And>q. batch_losses vf (snd (snd ds')) (n_test_batches t) bs q
                = batch_losses vf (snd (snd ds)) (n_test_batches t) bs q"
    and st: "datasets t = ds"
  shows "while_loop fp tf vf ne bs (t\<lparr>datasets := ds'\<rparr>)
         = map_sum (\<lambda>e. e) (\<lambda>u. u\<lparr>datasets := ds'\<rparr>) (while_loop fp tf vf ne bs t)"
  using sl va te st
proof (induction fp tf vf ne bs t rule: while_loop.induct)
  case (1 fp tf vf ne bs t)
  show ?case
  proof (cases "epoch t < ne \<and> \<not> done_looping t")
    case False
    then show ?thesis by (subst (1 2) while_loop.simps) auto
  next
    case True
    have comm: "t\<lparr>datasets := ds', epoch := epoch t + 1\<rparr>
                = t\<lparr>epoch := epoch t + 1, datasets := ds'\<rparr>"
      by (cases t) simp
    have "for_loop fp tf vf bs (py_range (n_train_batches t))
            (t\<lparr>epoch := epoch t + 1, datasets := ds'\<rparr>)
          = map_sum (\<lambda>e. e) (\<lambda>u. u\<lparr>datasets := ds'\<rparr>)
              (for_loop fp tf vf bs (py_range (n_train_batches t)) (t\<lparr>epoch := epoch t + 1\<rparr>))"
      using "1.prems"
      by (intro for_loop_data[where ds = ds and nv = "n_valid_batches t"
            and ns = "n_test_batches t"]) simp_all
    then have p: "epoch_pass fp tf vf bs (t\<lparr>datasets := ds'\<rparr>)
           = map_sum (\<lambda>e. e) (\<lambda>u. u\<lparr>datasets := ds'\<rparr>) (epoch_pass fp tf vf bs t)"
      unfolding epoch_pass_def by (simp add: comm)
    show ?thesis
    proof (cases "epoch_pass fp tf vf bs t")
      case (Inl e)
      with p True show ?thesis by (subst (1 2) while_loop.simps) simp
    next
      case (Inr u)
      have su: "setup_of u = setup_of t" by (rule epoch_pass_setup[OF Inr])
      have "while_loop fp tf vf ne bs (u\<lparr>datasets := ds'\<rparr>)
         = map_sum (\<lambda>e. e) (\<lambda>u. u\<lparr>datasets := ds'\<rparr>) (while_loop fp tf vf ne bs u)"
        using "1.prems" su by (intro "1.IH"[OF True Inr]) (simp_all add: setup_of_def)
      with p Inr True show ?thesis
        by (subst (1 2) while_loop.simps) simp
    qed
  qed
qed


lemma evaluate_model_data:
  assumes eq: "complete_part bs ds' = complete_part bs ds"
  shows "evaluate_model fp tf vf ds' ne bs p
         = map_sum (\<lambda>e. e) (\<lambda>s. s\<lparr>datasets := ds'\<rparr>) (evaluate_model fp tf vf ds ne bs p)"
proof (cases "bs = 0")
  case True
  then show ?thesis by (simp add: evaluate_model_def)
next
  case False
  then have bs: "0 < bs" by simp
  from eq have tr: "complete_minibatches bs (fst ds') = complete_minibatches bs (fst ds)"
    and va: "complete_minibatches bs (fst (snd ds')) = complete_minibatches bs (fst (snd ds))"
    and te: "complete_minibatches bs (snd (snd ds')) = complete_minibatches bs (snd (snd ds))"
    by (simp_all add: complete_part_def)
  let ?s0 = "initial_state ds (int bs) p"
  have n: "n_train_batches ?s0 = int (length (fst (fst ds)) div bs)"
    "n_valid_batches ?s0 = int (length (fst (fst (snd ds))) div bs)"
    "n_test_batches ?s0 = int (length (fst (snd (snd ds))) div bs)"
    by (simp_all add: initial_state_simps zdiv_int)
  have init: "initial_state ds' (int bs) p = ?s0\<lparr>datasets := ds'\<rparr>"
    using complete_minibatches_agree(1)[OF tr bs] complete_minibatches_agree(1)[OF va bs]
      complete_minibatches_agree(1)[OF te bs]
    by (simp add: initial_state_def Let_def zdiv_int[symmetric])
  have "while_loop fp tf vf (int ne) (int bs) (?s0\<lparr>datasets := ds'\<rparr>)
        = map_sum (\<lambda>e. e) (\<lambda>s. s\<lparr>datasets := ds'\<rparr>)
            (while_loop fp tf vf (int ne) (int bs) ?s0)"
  proof (rule while_loop_data[where ds = ds])
    show "datasets ?s0 = ds" by (simp add: initial_state_simps)
  next
    fix q
    show "batch_losses vf (fst (snd ds')) (n_valid_batches ?s0) (int bs) q
          = batch_losses vf (fst (snd ds)) (n_valid_batches ?s0) (int bs) q"
      unfolding n using batch_losses_minibatch_errors[of vf "fst (snd ds')" bs q]
        batch_losses_minibatch_errors[of vf "fst (snd ds)" bs q]
        minibatch_errors_agree[OF va bs, of vf q] complete_minibatches_agree(1)[OF va bs]
      by simp
  next
    fix q
    show "batch_losses vf (snd (snd ds')) (n_test_batches ?s0) (int bs) q
          = batch_losses vf (snd (snd ds)) (n_test_batches ?s0) (int bs) q"
      unfolding n using batch_losses_minibatch_errors[of vf "snd (snd ds')" bs q]
        batch_losses_minibatch_errors[of vf "snd (snd ds)" bs q]
        minibatch_errors_agree[OF te bs, of vf q] complete_minibatches_agree(1)[OF te bs]
      by simp
  next
    fix i assume "i \<in> set (py_range (n_train_batches ?s0))"
    then obtain j where j: "i = int j" "j < length (fst (fst ds)) div bs"
      unfolding n by (auto simp: py_range_def)
    show "py_slice (fst (fst ds')) (i * int bs) ((i + 1) * int bs)
            = py_slice (fst (fst ds)) (i * int bs) ((i + 1) * int bs)
        \<and> py_slice (snd (fst ds')) (i * int bs) ((i + 1) * int bs)
            = py_slice (snd (fst ds)) (i * int bs) ((i + 1) * int bs)"
      unfolding j(1) py_slice_minibatch
      using complete_minibatches_agree(2,3)[OF tr bs j(2)] by simp
  qed
  then show ?thesis using bs by (simp add: evaluate_model_def init)
qed

lemma while_loop_no_batches:
  "n_train_batches t \<le> 0 \<Longrightarrow> \<not> done_looping t \<Longrightarrow> epoch t \<le> ne
    \<Longrightarrow> while_loop fp tf vf ne bs t = Inr (t\<lparr>epoch := ne\<rparr>)"
proof (induction fp tf vf ne bs t rule: while_loop.induct)
  case (1 fp tf vf ne bs t)
  show ?case
  proof (cases "epoch t < ne")
    case True
    have p: "epoch_pass fp tf vf bs t = Inr (t\<lparr>epoch := epoch t + 1\<rparr>)"
      using "1.prems"(1) by (simp add: epoch_pass_def py_range_def)
    have "while_loop fp tf vf ne bs (t\<lparr>epoch := epoch t + 1\<rparr>)
          = Inr (t\<lparr>epoch := epoch t + 1\<rparr>\<lparr>epoch := ne\<rparr>)"
      using "1.prems" True by (intro "1.IH"[OF _ p]) simp_all
    with p True "1.prems"(2) show ?thesis by (subst while_loop.simps) simp
  next
    case False
    with "1.prems"(3) have "epoch t = ne" by simp
    then have "t\<lparr>epoch := ne\<rparr> = t" by (cases t) simp
    with False show ?thesis by (subst while_loop.simps) simp
  qed
qed

text \<open>
  C8. Two datasets whose splits have the same complete minibatches (the first
  \<open>(n div batch_size) * batch_size\<close> examples of each split) give the same run: the same
  outcome and, but for the datasets object itself, the same final state and history. So the
  trailing examples that do not fill a minibatch are never used. And when \<^verbatim>\<open>batch_size\<close>
  exceeds the number of training examples, \<^verbatim>\<open>n_train_batches\<close> and
  \<^verbatim>\<open>validation_frequency\<close> are 0, the body of the inner loop never runs (the history is
  empty, so \<^verbatim>\<open>(iter + 1) % validation_frequency\<close> is never evaluated), and the call
  returns normally after \<^verbatim>\<open>n_epochs\<close> empty epochs with \<^verbatim>\<open>best_validation_loss\<close> infinite
  and \<^verbatim>\<open>test_score\<close> 0.
\<close>

theorem only_complete_minibatches_are_read:
  "(complete_part batch_size ds' = complete_part batch_size ds \<longrightarrow>
      map_sum (\<lambda>e. e) (\<lambda>s. s\<lparr>datasets := ds\<rparr>)
        (evaluate_model fp train_fn valid_fn ds' n_epochs batch_size p)
      = evaluate_model fp train_fn valid_fn ds n_epochs batch_size p)
   \<and> (length (fst (fst ds)) < batch_size \<longrightarrow>
      (\<exists>s. evaluate_model fp train_fn valid_fn ds n_epochs batch_size p = Inr s
         \<and> n_train_batches s = 0 \<and> validation_frequency s = 0 \<and> history s = []
         \<and> best_validation_loss s = PInf \<and> test_score s = Fin 0 \<and> best_iter s = 0
         \<and> params s = p \<and> epoch s = int n_epochs \<and> \<not> done_looping s))"
proof (intro conjI impI)
  assume "complete_part batch_size ds' = complete_part batch_size ds"
  then have "complete_part batch_size ds = complete_part batch_size ds'" by simp
  from evaluate_model_data[OF this, of fp train_fn valid_fn n_epochs p]
  show "map_sum (\<lambda>e. e) (\<lambda>s. s\<lparr>datasets := ds\<rparr>)
          (evaluate_model fp train_fn valid_fn ds' n_epochs batch_size p)
        = evaluate_model fp train_fn valid_fn ds n_epochs batch_size p"
    by (rule sym)
next
  assume small: "length (fst (fst ds)) < batch_size"
  let ?s0 = "initial_state ds (int batch_size) p"
  have n: "n_train_batches ?s0 = 0" using small by (simp add: initial_state_simps zdiv_int)
  have "while_loop fp train_fn valid_fn (int n_epochs) (int batch_size) ?s0
        = Inr (?s0\<lparr>epoch := int n_epochs\<rparr>)"
    using n by (intro while_loop_no_batches) (simp_all add: initial_state_simps)
  then have "evaluate_model fp train_fn valid_fn ds n_epochs batch_size p
        = Inr (?s0\<lparr>epoch := int n_epochs\<rparr>)"
    using small by (simp add: evaluate_model_def)
  moreover have "validation_frequency ?s0 = 0"
    using n by (simp add: initial_state_simps)
  ultimately show "\<exists>s. evaluate_model fp train_fn valid_fn ds n_epochs batch_size p = Inr s
         \<and> n_train_batches s = 0 \<and> validation_frequency s = 0 \<and> history s = []
         \<and> best_validation_loss s = PInf \<and> test_score s = Fin 0 \<and> best_iter s = 0
         \<and> params s = p \<and> epoch s = int n_epochs \<and> \<not> done_looping s"
    using n by (simp add: initial_state_simps)
qed

theorem only_complete_minibatches_are_read_witness:
  "complete_part 2 longer_datasets = complete_part 2 short_datasets
   \<and> map_sum (\<lambda>e. e) (\<lambda>s. s\<lparr>datasets := short_datasets\<rparr>)
        (evaluate_model exact demo_train_fn demo_valid_fn longer_datasets 1 2 0)
      = short_run
   \<and> length (fst (fst demo_datasets)) < 2
   \<and> \<not> isl (evaluate_model exact demo_train_fn demo_valid_fn demo_datasets 3 2 0)
   \<and> epoch (projr (evaluate_model exact demo_train_fn demo_valid_fn demo_datasets 3 2 0)) = 3"
proof -
  have c: "complete_part 2 longer_datasets = complete_part 2 short_datasets" by code_simp
  have l: "length (fst (fst demo_datasets)) < 2" by code_simp
  note T = only_complete_minibatches_are_read[of 2 longer_datasets short_datasets
      exact demo_train_fn demo_valid_fn 1 0]
  note U = only_complete_minibatches_are_read[of 2 demo_datasets demo_datasets
      exact demo_train_fn demo_valid_fn 3 0]
  from conjunct1[OF T, THEN mp, OF c]
  have a: "map_sum (\<lambda>e. e) (\<lambda>s. s\<lparr>datasets := short_datasets\<rparr>)
        (evaluate_model exact demo_train_fn demo_valid_fn longer_datasets 1 2 0) = short_run"
    by (simp add: short_run_def)
  from conjunct2[OF U, THEN mp, OF l]
  obtain s where "evaluate_model exact demo_train_fn demo_valid_fn demo_datasets 3 2 0 = Inr s"
    "epoch s = int 3" by blast
  then have "\<not> isl (evaluate_model exact demo_train_fn demo_valid_fn demo_datasets 3 2 0)
    \<and> epoch (projr (evaluate_model exact demo_train_fn demo_valid_fn demo_datasets 3 2 0)) = 3"
    by simp
  with c a l show ?thesis by simp
qed

subsection \<open>When the validation check runs\<close>

lemma run_check_iff:
  assumes run: "evaluate_model fp tf vf ds ne bs p = Inr s" and k: "k < length (history s)"
  shows "at_validation (history s ! k) \<noteq> None
         \<longleftrightarrow> (at_iter (history s ! k) + 1) mod validation_frequency s = 0"
  using run_entry(1)[OF run k] by simp

lemma quotient_unique:
  fixes a a' b b' n :: int
  assumes "a * n + b = a' * n + b'" "0 \<le> b" "b < n" "0 \<le> b'" "b' < n"
  shows "a = a'" and "b = b'"
proof -
  have "(a * n + b) div n = a" using assms(2,3) by (simp add: div_pos_pos_trivial)
  moreover have "(a' * n + b') div n = a'" using assms(4,5) by (simp add: div_pos_pos_trivial)
  ultimately show "a = a'" unfolding assms(1) by simp
  with assms(1) show "b = b'" by simp
qed

lemma run_check_last_minibatch:
  assumes run: "evaluate_model fp tf vf ds ne bs p = Inr s" and k: "k < length (history s)"
    and n: "1 \<le> n_train_batches s" "n_train_batches s \<le> 5000"
  shows "at_validation (history s ! k) \<noteq> None
         \<longleftrightarrow> at_minibatch (history s ! k) = n_train_batches s - 1"
    and "at_epoch (history s ! k) = j \<and> at_validation (history s ! k) \<noteq> None
         \<longleftrightarrow> int k = j * n_train_batches s - 1"
proof -
  let ?e = "history s ! k" and ?n = "n_train_batches s"
  from run_shape[OF run] k have it: "at_iter ?e = int k"
    and sp: "at_iter ?e = (at_epoch ?e - 1) * ?n + at_minibatch ?e"
    and mb: "0 \<le> at_minibatch ?e" "at_minibatch ?e < ?n"
    by blast+
  have vf: "validation_frequency s = ?n" using run_setup(5)[OF run] n by simp
  have "(at_iter ?e + 1) mod ?n = (at_minibatch ?e + 1) mod ?n"
    unfolding sp by (simp add: add.assoc)
  also have "\<dots> = 0 \<longleftrightarrow> at_minibatch ?e = ?n - 1"
  proof (cases "at_minibatch ?e = ?n - 1")
    case True
    then show ?thesis by simp
  next
    case False
    with mb have "at_minibatch ?e + 1 < ?n" "0 \<le> at_minibatch ?e + 1" by simp_all
    then have "(at_minibatch ?e + 1) mod ?n = at_minibatch ?e + 1" by simp
    with mb False show ?thesis by simp
  qed
  finally have m: "(at_iter ?e + 1) mod ?n = 0 \<longleftrightarrow> at_minibatch ?e = ?n - 1" .
  with run_check_iff[OF run k] vf
  show c: "at_validation ?e \<noteq> None \<longleftrightarrow> at_minibatch ?e = ?n - 1" by simp
  show "at_epoch ?e = j \<and> at_validation ?e \<noteq> None \<longleftrightarrow> int k = j * ?n - 1"
  proof
    assume "at_epoch ?e = j \<and> at_validation ?e \<noteq> None"
    with c sp it show "int k = j * ?n - 1" by (simp add: algebra_simps)
  next
    assume a: "int k = j * ?n - 1"
    have "(at_epoch ?e - 1) * ?n + at_minibatch ?e = (j - 1) * ?n + (?n - 1)"
      using a sp it by (simp add: algebra_simps)
    from quotient_unique[OF this mb] n
    have "at_epoch ?e - 1 = j - 1" "at_minibatch ?e = ?n - 1" by simp_all
    with c show "at_epoch ?e = j \<and> at_validation ?e \<noteq> None" by simp
  qed
qed

lemma run_checks_in_epoch:
  assumes run: "evaluate_model fp tf vf ds ne bs p = Inr s"
    and n: "1 \<le> n_train_batches s" "n_train_batches s \<le> 5000" and j: "1 \<le> j"
  shows "checks_in_epoch (history s) j
         = (if j * n_train_batches s \<le> int (length (history s)) then 1 else 0)"
proof -
  let ?h = "history s" and ?n = "n_train_batches s"
  let ?k0 = "nat (j * ?n - 1)"
  have pos: "0 \<le> j * ?n - 1"
  proof -
    have "1 * 1 \<le> j * ?n" using j n(1) by (intro mult_mono) simp_all
    then show ?thesis by simp
  qed
  have "{k. k < length ?h \<and> (at_epoch (?h ! k) = j \<and> at_validation (?h ! k) \<noteq> None)}
        = {k. k < length ?h \<and> k = ?k0}"
  proof (rule Collect_cong)
    fix k
    show "(k < length ?h \<and> (at_epoch (?h ! k) = j \<and> at_validation (?h ! k) \<noteq> None))
          = (k < length ?h \<and> k = ?k0)"
    proof (cases "k < length ?h")
      case True
      from run_check_last_minibatch(2)[OF run True n, of j] pos
      show ?thesis using True by auto
    next
      case False
      then show ?thesis by simp
    qed
  qed
  also have "\<dots> = (if ?k0 < length ?h then {?k0} else {})" by auto
  finally have "checks_in_epoch ?h j = card (if ?k0 < length ?h then {?k0} else {})"
    by (simp add: checks_in_epoch_def length_filter_conv_card)
  moreover have "?k0 < length ?h \<longleftrightarrow> j * ?n \<le> int (length ?h)" using pos by linarith
  ultimately show ?thesis by simp
qed


lemma run_constant_loss:
  assumes run: "evaluate_model fp tf vf ds ne bs p = Inr s"
    and const: "\<And>q. np_mean fp (batch_losses vf (fst (snd ds)) (n_valid_batches s) (int bs) q) = Fin c"
  shows "k \<le> length (history s) \<Longrightarrow>
    patience_before (history s) k = 10000
    \<and> (best_before (history s) k = Fin c
       \<or> best_before (history s) k = PInf \<and> int k < max 1 (validation_frequency s))"
proof (induction k)
  case 0
  then show ?case by (simp add: before_0)
next
  case (Suc k)
  then have k: "k < length (history s)" by simp
  let ?e = "history s ! k" and ?f = "validation_frequency s"
  note E = run_entry[OF run k, unfolded const]
  from run_shape[OF run] k have it: "at_iter ?e = int k"
    and mb: "0 \<le> at_minibatch ?e" "at_minibatch ?e < n_train_batches s" by blast+
  have f: "1 \<le> ?f" "?f \<le> 5000" using run_setup(5)[OF run] mb by simp_all
  from Suc.IH k have pb: "patience_before (history s) k = 10000"
    and bb: "best_before (history s) k = Fin c
       \<or> best_before (history s) k = PInf \<and> int k < ?f"
    using f by auto
  from bb show ?case
  proof
    assume b: "best_before (history s) k = Fin c"
    with E(2,3) pb show ?thesis by (simp add: before_Suc)
  next
    assume b: "best_before (history s) k = PInf \<and> int k < ?f"
    show ?thesis
    proof (cases "(int k + 1) mod ?f = 0")
      case True
      with E(2,3) b pb it f show ?thesis by (simp add: before_Suc)
    next
      case False
      with b f have "int (Suc k) < ?f"
        by (cases "int k + 1 = ?f") simp_all
      with E(2,3) b pb it False show ?thesis by (simp add: before_Suc)
    qed
  qed
qed

text \<open>
  C3, as the specification states it, fails in its last part. In the run below an epoch has
  two minibatches and \<^verbatim>\<open>patience\<close> stays 10000, so the loop stops after iteration 10000,
  the first minibatch of epoch 5001: that epoch has begun and no validation check runs in
  it.
\<close>

theorem no_validation_in_interrupted_epoch:
  "\<not> isl long_run \<and> n_train_batches (projr long_run) = 2
   \<and> length (history (projr long_run)) = 10001
   \<and> at_epoch (last (history (projr long_run))) = 5001
   \<and> at_minibatch (last (history (projr long_run))) = 0
   \<and> checks_in_epoch (history (projr long_run)) 5001 = 0"
proof -
  have "\<exists>s. evaluate_model exact demo_train_fn flat_valid_fn long_datasets 5001 1 0 = Inr s"
    by (rule evaluate_model_total) simp
  then obtain s where run: "evaluate_model exact demo_train_fn flat_valid_fn long_datasets 5001 1 0 = Inr s"
    by blast
  then have s: "projr long_run = s" "\<not> isl long_run" by (simp_all add: long_run_def)
  let ?h = "history s" and ?K = "length (history s)"
  have n: "n_train_batches s = 2" and nv: "n_valid_batches s = 1"
    using run_setup(2,3)[OF run] by (simp_all add: long_datasets_def)
  have const: "np_mean exact (batch_losses flat_valid_fn (fst (snd long_datasets)) (n_valid_batches s)
                  (int 1) q) = Fin (1 / 2)" for q
    unfolding nv
    by (simp add: batch_losses_def py_range_def np_mean_def flat_valid_fn_def exact_def)
  have pat: "at_patience (?h ! k) = 10000" if "k < ?K" for k
    using run_constant_loss[OF run const, of "Suc k"] that by (simp add: before_Suc)
  note S = run_shape[OF run]
  have upper: "?K \<le> 10001"
  proof (rule ccontr)
    assume "\<not> ?K \<le> 10001"
    then have k: "Suc (?K - 2) < ?K" "?K - 2 < ?K" "10000 \<le> ?K - 2" by simp_all
    with S have "int (?K - 2) < at_patience (?h ! (?K - 2))" by blast
    with pat[OF k(2)] k(3) show False by simp
  qed
  have dn: "done_looping s"
  proof (rule ccontr)
    assume nd: "\<not> done_looping s"
    with S have "epoch s = int 5001" "int ?K = epoch s * n_train_batches s" by blast+
    with n upper show False by simp
  qed
  with S have ne: "?h \<noteq> []" and brk: "at_patience (last ?h) \<le> at_iter (last ?h)"
    and ep: "at_epoch (last ?h) = epoch s" by blast+
  from ne have last: "last ?h = ?h ! (?K - 1)" "?K - 1 < ?K"
    by (simp_all add: last_conv_nth)
  from S last(2) have it: "at_iter (?h ! (?K - 1)) = int (?K - 1)"
    and sp: "at_iter (?h ! (?K - 1))
             = (at_epoch (?h ! (?K - 1)) - 1) * n_train_batches s + at_minibatch (?h ! (?K - 1))"
    and mb: "0 \<le> at_minibatch (?h ! (?K - 1))" "at_minibatch (?h ! (?K - 1)) < n_train_batches s"
    by blast+
  from brk pat[OF last(2)] it have "10000 \<le> int (?K - 1)" by (simp add: last(1))
  with upper have K: "?K = 10001" by simp
  have "(at_epoch (last ?h) - 1) * 2 + at_minibatch (last ?h) = 10000"
    "0 \<le> at_minibatch (last ?h)" "at_minibatch (last ?h) < 2"
    using sp it mb K n by (simp_all add: last(1))
  then have e: "at_epoch (last ?h) = 5001" "at_minibatch (last ?h) = 0"
    by presburger+
  have "checks_in_epoch ?h 5001
        = (if 5001 * n_train_batches s \<le> int ?K then 1 else 0)"
    by (rule run_checks_in_epoch[OF run]) (simp_all add: n)
  then have "checks_in_epoch ?h 5001 = 0" by (simp add: n K)
  with s n K e show ?thesis by simp
qed

text \<open>
  C3, amended. \<^verbatim>\<open>validation_frequency\<close> is \<^verbatim>\<open>min(n_train_batches, patience // 2)\<close> with the
  initial patience 10000, and the validation check runs exactly after the iterations
  \<open>iter\<close> for which \<open>iter + 1\<close> is divisible by it. When
  \<open>1 \<le> n_train_batches \<le> 5000\<close>, the check runs after an iteration exactly when it is the
  last minibatch of its epoch; so epoch \<open>j\<close> has one check if the run reaches its last
  minibatch (\<open>j * n_train_batches\<close> iterations have run) and none otherwise.
\<close>

theorem validation_checks_are_periodic:
  assumes run: "evaluate_model fp train_fn valid_fn ds n_epochs batch_size p = Inr s"
  shows "validation_frequency s = min (n_train_batches s) (10000 div 2)
       \<and> n_train_batches s = int (length (fst (fst ds)) div batch_size)
       \<and> (\<forall>k<length (history s).
             at_iter (history s ! k) = int k
           \<and> (at_validation (history s ! k) \<noteq> None
                \<longleftrightarrow> (at_iter (history s ! k) + 1) mod validation_frequency s = 0))
       \<and> (1 \<le> n_train_batches s \<and> n_train_batches s \<le> 5000 \<longrightarrow>
            (\<forall>k<length (history s).
               at_validation (history s ! k) \<noteq> None
               \<longleftrightarrow> at_minibatch (history s ! k) = n_train_batches s - 1)
          \<and> (\<forall>j\<ge>1. checks_in_epoch (history s) j
                = (if j * n_train_batches s \<le> int (length (history s)) then 1 else 0)))"
proof -
  have a: "validation_frequency s = min (n_train_batches s) (10000 div 2)"
    using run_setup(5)[OF run] by simp
  have n: "n_train_batches s = int (length (fst (fst ds)) div batch_size)"
    by (rule run_setup(2)[OF run])
  have b: "\<forall>k<length (history s).
             at_iter (history s ! k) = int k
           \<and> (at_validation (history s ! k) \<noteq> None
                \<longleftrightarrow> (at_iter (history s ! k) + 1) mod validation_frequency s = 0)"
  proof (intro allI impI conjI)
    fix k assume k: "k < length (history s)"
    show "at_iter (history s ! k) = int k" using run_shape[OF run] k by blast
    show "at_validation (history s ! k) \<noteq> None
          \<longleftrightarrow> (at_iter (history s ! k) + 1) mod validation_frequency s = 0"
      by (rule run_check_iff[OF run k])
  qed
  have c: "(\<forall>k<length (history s).
               at_validation (history s ! k) \<noteq> None
               \<longleftrightarrow> at_minibatch (history s ! k) = n_train_batches s - 1)
          \<and> (\<forall>j\<ge>1. checks_in_epoch (history s) j
                = (if j * n_train_batches s \<le> int (length (history s)) then 1 else 0))"
    if r: "1 \<le> n_train_batches s \<and> n_train_batches s \<le> 5000"
  proof (intro allI impI conjI)
    fix k assume k: "k < length (history s)"
    show "at_validation (history s ! k) \<noteq> None
          \<longleftrightarrow> at_minibatch (history s ! k) = n_train_batches s - 1"
      by (rule run_check_last_minibatch(1)[OF run k conjunct1[OF r] conjunct2[OF r]])
  next
    fix j :: int assume j: "1 \<le> j"
    show "checks_in_epoch (history s) j
          = (if j * n_train_batches s \<le> int (length (history s)) then 1 else 0)"
      by (rule run_checks_in_epoch[OF run conjunct1[OF r] conjunct2[OF r] j])
  qed
  show ?thesis by (rule conjI[OF a conjI[OF n conjI[OF b impI[OF c]]]])
qed

theorem validation_checks_are_periodic_witness:
  "\<not> isl demo_run \<and> validation_frequency (projr demo_run) = 1
   \<and> at_minibatch (history (projr demo_run) ! 1) = 0
   \<and> at_validation (history (projr demo_run) ! 1) \<noteq> None
   \<and> checks_in_epoch (history (projr demo_run)) 2 = 1"
proof -
  have r: "\<not> isl demo_run" by code_simp
  have n: "n_train_batches (projr demo_run) = 1" by code_simp
  have l: "length (history (projr demo_run)) = 2" by code_simp
  have m: "at_minibatch (history (projr demo_run) ! 1) = 0" by code_simp
  have one: "1 < length (history (projr demo_run))" using l by simp
  note T = validation_checks_are_periodic[OF demo_run_returns]
  from T n have f: "validation_frequency (projr demo_run) = 1" by simp
  have range: "1 \<le> n_train_batches (projr demo_run) \<and> n_train_batches (projr demo_run) \<le> 5000"
    using n by simp
  note T4 = conjunct2[OF conjunct2[OF conjunct2[OF T]], THEN mp, OF range]
  from conjunct1[OF T4, rule_format, OF one] m n
  have v: "at_validation (history (projr demo_run) ! 1) \<noteq> None" by simp
  have two: "(1::int) \<le> 2" by simp
  from conjunct2[OF T4, rule_format, OF two] n l
  have "checks_in_epoch (history (projr demo_run)) 2 = 1" by simp
  with r f m v show ?thesis by simp
qed

subsection \<open>When patience is raised\<close>

lemma run_params_count:
  assumes run: "evaluate_model fp demo_train_fn vf ds ne bs 0 = Inr s"
  shows "\<forall>k<length (history s). at_params (history s ! k) = Suc k"
proof -
  define I where "I = (\<lambda>t::(nat, nat, nat) state. params t = length (history t)
      \<and> (\<forall>k<length (history t). at_params (history t ! k) = Suc k))"
  let ?s0 = "initial_state ds (int bs) (0::nat)"
  have "(if done_looping s then I s else (\<lambda>_. I) (n_train_batches s) s)
         \<and> setup_of s = setup_of ?s0
         \<and> \<not> (epoch s < int ne \<and> \<not> done_looping s) \<and> 0 < bs"
  proof (rule run_rule[OF run, of "\<lambda>_. I" I])
    show "I ?s0" by (simp add: I_def initial_state_simps)
    show "I (t\<lparr>epoch := epoch t + 1\<rparr>)" if "I t" for t
      using that by (simp add: I_def)
    fix i t t'
    assume It: "I t" and b: "body fp demo_train_fn vf (int bs) i t = Inr t'"
    note B = body_Inr[OF b]
    have p: "params t' = Suc (params t)" using B(3) by (simp add: demo_train_fn_def)
    have "I t'"
      unfolding I_def using It p
      by (auto simp: I_def B(14) nth_append less_Suc_eq demo_train_fn_def)
    then have "I (t'\<lparr>done_looping := True\<rparr>)" by (simp add: I_def)
    with \<open>I t'\<close> show "if patience t' \<le> (epoch t' - 1) * n_train_batches t' + i
        then I (t'\<lparr>done_looping := True\<rparr>) else I t'" by simp
  qed
  then have "I s" by (simp split: if_splits)
  then show ?thesis by (simp add: I_def)
qed

text \<open>
  C4, as the specification states it, fails in its middle part: the assignment does not run
  at every check where \<^verbatim>\<open>this_validation_loss < best_validation_loss * 0.995\<close>. In the run
  below the best validation loss is -1 from the first check on. The check of iteration 6000
  computes -0.999, which is below \<open>-1 * 0.995\<close> and not below -1: the outer test
  \<^verbatim>\<open>this_validation_loss < best_validation_loss\<close> fails, the assignment is not reached,
  and \<^verbatim>\<open>patience\<close> stays 10000 where \<^verbatim>\<open>max(patience, iter * 2)\<close> is 12000.
\<close>

theorem patience_kept_below_threshold:
  "\<not> isl sign_run
   \<and> at_iter (history (projr sign_run) ! 6000) = 6000
   \<and> at_validation (history (projr sign_run) ! 6000) = Some (Fin (- 999 / 1000))
   \<and> best_before (history (projr sign_run)) 6000 = Fin (- 1)
   \<and> fl_less (Fin (- 999 / 1000)) (fl_times exact (Fin (- 1)) improvement_threshold)
   \<and> patience_before (history (projr sign_run)) 6000 = 10000
   \<and> at_patience (history (projr sign_run) ! 6000) = 10000
   \<and> max (10000::int) (6000 * patience_increase) = 12000"
proof -
  have "\<exists>s. evaluate_model exact demo_train_fn sign_valid_fn demo_datasets 6001 1 0 = Inr s"
    by (rule evaluate_model_total) simp
  then obtain s
    where run: "evaluate_model exact demo_train_fn sign_valid_fn demo_datasets 6001 1 0 = Inr s"
    by blast
  then have s: "projr sign_run = s" "\<not> isl sign_run" by (simp_all add: sign_run_def)
  let ?h = "history s" and ?K = "length (history s)"
  have n: "n_train_batches s = 1" and nv: "n_valid_batches s = 1"
    and f: "validation_frequency s = 1"
    using run_setup(2,3,5)[OF run] by (simp_all add: demo_datasets_def)
  have loss: "np_mean exact (batch_losses sign_valid_fn (fst (snd demo_datasets))
                (n_valid_batches s) (int 1) q) = Fin (if q \<le> 6000 then - 1 else - 999 / 1000)"
    for q
    unfolding nv by (simp add: batch_losses_def py_range_def np_mean_def sign_valid_fn_def exact_def)
  note S = run_shape[OF run]
  have bound: "int ?K \<le> 6001" using S n by simp
  have nd: "\<not> done_looping s"
  proof
    assume "done_looping s"
    with S have ne: "?h \<noteq> []" and brk: "at_patience (last ?h) \<le> at_iter (last ?h)"
      by blast+
    from ne have last: "last ?h = ?h ! (?K - 1)" "?K - 1 < ?K" "Suc (?K - 1) = ?K"
      by (simp_all add: last_conv_nth)
    from S last(2) have it: "at_iter (?h ! (?K - 1)) = int (?K - 1)" by blast
    have "patience_before ?h 0 \<le> patience_before ?h ?K"
      by (rule run_patience_mono[OF run]) simp_all
    then have "10000 \<le> at_patience (?h ! (?K - 1))"
      using before_Suc(1)[of ?h "?K - 1"] unfolding last(3) by (simp add: before_0)
    with brk it bound show False by (simp add: last(1))
  qed
  with S n have K: "?K = 6001" by auto
  have par: "at_params (?h ! k) = Suc k" if "k < ?K" for k
    using run_params_count[OF run] that by blast
  have iter: "at_iter (?h ! k) = int k" if "k < ?K" for k
    using S that by blast
  have inv: "1 \<le> k \<Longrightarrow> k \<le> 6000
      \<Longrightarrow> patience_before ?h k = 10000 \<and> best_before ?h k = Fin (- 1)" for k
  proof (induction k)
    case 0
    then show ?case by simp
  next
    case (Suc k)
    then have k: "k < ?K" and small: "Suc k \<le> 6000" using K by simp_all
    note E = run_entry(2,3)[OF run k, unfolded loss f par[OF k] iter[OF k]]
    show ?case
    proof (cases "k = 0")
      case True
      with E small show ?thesis by (simp add: before_Suc before_0)
    next
      case False
      with Suc have "patience_before ?h k = 10000 \<and> best_before ?h k = Fin (- 1)" by simp
      with E small show ?thesis by (simp add: before_Suc)
    qed
  qed
  have k: "6000 < ?K" using K by simp
  from inv[of 6000] have pb: "patience_before ?h 6000 = 10000"
    and bb: "best_before ?h 6000 = Fin (- 1)" by simp_all
  note E = run_entry(1,2)[OF run k, unfolded loss f par[OF k] iter[OF k] pb bb]
  have v: "at_validation (?h ! 6000) = Some (Fin (- 999 / 1000))" using E(1) by simp
  have ap: "at_patience (?h ! 6000) = 10000" using E(2) by simp
  have th: "fl_less (Fin (- 999 / 1000)) (fl_times exact (Fin (- 1)) improvement_threshold)"
    by (simp add: exact_def improvement_threshold_def)
  have "max (10000::int) (6000 * patience_increase) = 12000"
    by (simp add: patience_increase_def)
  with s iter[OF k] v bb th pb ap show ?thesis by simp
qed

text \<open>
  C4, amended. \<^verbatim>\<open>patience\<close> starts at 10000. An iteration leaves it unchanged unless its
  validation check finds both \<^verbatim>\<open>this_validation_loss < best_validation_loss\<close> and
  \<^verbatim>\<open>this_validation_loss < best_validation_loss * 0.995\<close>, and then it becomes
  \<^verbatim>\<open>max(patience, iter * 2)\<close>. So \<^verbatim>\<open>patience\<close> never decreases: its value before a later
  iteration is at least its value before an earlier one, and its final value is the last
  of these. This holds whatever the product with 0.995 rounds to.
\<close>

theorem patience_never_decreases:
  assumes run: "evaluate_model fp train_fn valid_fn ds n_epochs batch_size p = Inr s"
  shows "(\<forall>k<length (history s).
            at_patience (history s ! k) =
              (if \<exists>l. at_validation (history s ! k) = Some l
                    \<and> fl_less l (best_before (history s) k)
                    \<and> fl_less l (fl_times fp (best_before (history s) k) improvement_threshold)
               then max (patience_before (history s) k)
                        (at_iter (history s ! k) * patience_increase)
               else patience_before (history s) k))
       \<and> (\<forall>j k. j \<le> k \<and> k \<le> length (history s)
            \<longrightarrow> patience_before (history s) j \<le> patience_before (history s) k)
       \<and> patience_before (history s) 0 = 10000
       \<and> patience s = patience_before (history s) (length (history s))"
proof -
  have step: "at_patience (history s ! k) =
              (if \<exists>l. at_validation (history s ! k) = Some l
                    \<and> fl_less l (best_before (history s) k)
                    \<and> fl_less l (fl_times fp (best_before (history s) k) improvement_threshold)
               then max (patience_before (history s) k)
                        (at_iter (history s ! k) * patience_increase)
               else patience_before (history s) k)"
    if k: "k < length (history s)" for k
  proof (cases "(at_iter (history s ! k) + 1) mod validation_frequency s = 0")
    case True
    with run_entry(1,2)[OF run k] show ?thesis by (auto simp: patience_increase_def)
  next
    case False
    with run_entry(1,2)[OF run k] show ?thesis by simp
  qed
  from step run_patience_mono[OF run] run_vars(1)[OF run] show ?thesis
    by (simp add: before_0)
qed

theorem patience_never_decreases_witness:
  "\<not> isl demo_run \<and> at_validation (history (projr demo_run) ! 1) = Some (Fin (1 / 4))
   \<and> at_patience (history (projr demo_run) ! 1) = 10000 \<and> patience (projr demo_run) = 10000"
proof -
  have r: "\<not> isl demo_run" by code_simp
  have l: "length (history (projr demo_run)) = 2" by code_simp
  have v: "at_validation (history (projr demo_run) ! 1) = Some (Fin (1 / 4))" by code_simp
  have b: "fl_less (Fin (1 / 4)) (best_before (history (projr demo_run)) 1)" by code_simp
  have c: "fl_less (Fin (1 / 4)) (fl_times exact (best_before (history (projr demo_run)) 1)
             improvement_threshold)" by code_simp
  have pb: "patience_before (history (projr demo_run)) 1 = 10000" by code_simp
  have it: "at_iter (history (projr demo_run) ! 1) = 1" by code_simp
  have pl: "patience_before (history (projr demo_run)) 2 = 10000" by code_simp
  note T = patience_never_decreases[OF demo_run_returns]
  have one: "1 < length (history (projr demo_run))" using l by simp
  note T1 = conjunct1[OF T, rule_format, OF one]
  have "at_patience (history (projr demo_run) ! 1) = 10000"
    using T1 v b c pb it by (simp add: patience_increase_def)
  moreover from T l pl have "patience (projr demo_run) = 10000" by simp
  ultimately show ?thesis using r v by simp
qed

end
